theory Spec2Isabelle
  imports Complex_Main "HOL-Library.AList" "HOL-Library.Log_Nat"
begin

section \<open>JavaScript values used by the models\<close>

text \<open>
  Stored numbers (bids, meld, trick scores, totals) are JavaScript numbers holding
  integers; they are modelled by \<open>int\<close>. \<open>null\<close> is \<open>None\<close>. A plain object used as a
  dictionary (\<open>playerMeld\<close>, \<open>playerScores\<close>) is the list of its own properties in
  enumeration order: assigning an existing key replaces the value in place, assigning
  a new key appends it (\<open>AList.update\<close>), reading a key is \<open>map_of\<close>. The keys are
  player ids: timestamps of 13 digits or names. Keys that JavaScript treats apart
  (array indices, which it enumerates first, and the names of \<open>Object.prototype\<close>
  members) are not modelled.
\<close>

type_synonym 'v jsobj = "(string \<times> 'v) list"

text \<open>The result of an arithmetic operator that can yield \<open>NaN\<close>.\<close>

datatype jsnum = Num int | NaN

text \<open>
  \<open>a % b\<close>: the remainder has the sign of the dividend, and \<open>NaN\<close> for a zero divisor.
\<close>

definition js_rem :: "int \<Rightarrow> int \<Rightarrow> jsnum" where
  "js_rem a b = (if b = 0 then NaN else Num (sgn a * (\<bar>a\<bar> mod \<bar>b\<bar>)))"

text \<open>\<open>!x\<close> is false exactly for a truthy \<open>x\<close>: not \<open>null\<close>, not \<open>0\<close>, not the empty string.\<close>

definition truthy_num :: "int option \<Rightarrow> bool" where
  "truthy_num x = (case x of None \<Rightarrow> False | Some n \<Rightarrow> n \<noteq> 0)"

definition truthy_str :: "string option \<Rightarrow> bool" where
  "truthy_str x = (case x of None \<Rightarrow> False | Some s \<Rightarrow> s \<noteq> [])"

text \<open>\<open>obj[key] || 0\<close>: a missing entry reads as \<open>0\<close> (and the falsy number \<open>0\<close> as itself).\<close>

definition or0 :: "int option \<Rightarrow> int" where
  "or0 x = (case x of None \<Rightarrow> 0 | Some n \<Rightarrow> n)"

text \<open>\<open>ToNumber\<close> of a stored bid in \<open>x -= bid\<close>: \<open>null\<close> converts to \<open>0\<close>.\<close>

definition to_number :: "int option \<Rightarrow> int" where
  "to_number x = (case x of None \<Rightarrow> 0 | Some n \<Rightarrow> n)"

subsection \<open>Arithmetic on doubles\<close>

text \<open>
  \<open>score / 10\<close> and \<open>sum + x\<close> are operations on IEEE 754 binary64 numbers: the exact
  result, rounded to the nearest double, a tie going to the even significand. A double
  is modelled by the rational it denotes. \<open>binade x\<close> is the exponent \<open>e\<close> with
  \<open>2^e \<le> x < 2^(e+1)\<close> for \<open>x > 0\<close>; the doubles of that binade are the multiples of
  \<open>2^(e-52)\<close>. Overflow and subnormal numbers are left out: the quotients and sums of
  stored integers computed here stay far inside the normal range.
\<close>

definition round_even :: "rat \<Rightarrow> int" where
  "round_even q =
     (let f = \<lfloor>q\<rfloor>; r = q - of_int f
      in if r < 1 / 2 then f else if 1 / 2 < r then f + 1 else if even f then f else f + 1)"

definition binade :: "rat \<Rightarrow> int" where
  "binade x = (if 1 \<le> x then bitlen \<lfloor>x\<rfloor> - 1 else - bitlen (\<lceil>1 / x\<rceil> - 1))"

definition ulp :: "rat \<Rightarrow> rat" where
  "ulp x = (let e = binade \<bar>x\<bar>
            in if 52 \<le> e then 2 ^ nat (e - 52) else 1 / 2 ^ nat (52 - e))"

definition to_double :: "rat \<Rightarrow> rat" where
  "to_double x = (if x = 0 then 0 else of_int (round_even (x / ulp x)) * ulp x)"

section \<open>Players\<close>

text \<open>Of a player the models read only \<open>id\<close> and \<open>name\<close> (fields \<open>p_id\<close>, \<open>p_name\<close>).\<close>

record Player =
  p_id :: string
  p_name :: string

section \<open>GameHand (\<^verbatim>\<open>src/src/models/GameHand.js\<close>)\<close>

record GameHand =
  handNumber :: int
  winningBid :: "int option"
  bidderId :: "string option"
  bidderName :: "string option"
  playerMeld :: "int jsobj"
  playerScores :: "int jsobj"
  timestamp :: string
  dealerId :: string
  dealerName :: string
  thrownIn :: bool

text \<open>The constructor; \<open>now\<close> is the value of \<open>new Date().toISOString()\<close>.\<close>

definition newGameHand :: "string \<Rightarrow> int \<Rightarrow> string \<Rightarrow> string \<Rightarrow> GameHand" where
  "newGameHand now n dId dName =
     \<lparr> handNumber = n, winningBid = None, bidderId = None, bidderName = None,
       playerMeld = [], playerScores = [], timestamp = now,
       dealerId = dId, dealerName = dName, thrownIn = False \<rparr>"

definition setWinningBid :: "int \<Rightarrow> string \<Rightarrow> string \<Rightarrow> GameHand \<Rightarrow> GameHand" where
  "setWinningBid bid bId bName h =
     h\<lparr> winningBid := Some bid, bidderId := Some bId, bidderName := Some bName \<rparr>"

definition setPlayerMeld :: "string \<Rightarrow> int \<Rightarrow> GameHand \<Rightarrow> GameHand" where
  "setPlayerMeld pid meld h = h\<lparr> playerMeld := AList.update pid meld (playerMeld h) \<rparr>"

definition setPlayerScore :: "string \<Rightarrow> int \<Rightarrow> GameHand \<Rightarrow> GameHand" where
  "setPlayerScore pid sc h = h\<lparr> playerScores := AList.update pid sc (playerScores h) \<rparr>"

definition throwIn :: "GameHand \<Rightarrow> GameHand" where
  "throwIn h =
     h\<lparr> thrownIn := True, winningBid := None, bidderId := None, bidderName := None,
       playerMeld := [], playerScores := [] \<rparr>"

definition isBidderSet :: "GameHand \<Rightarrow> bool" where
  "isBidderSet h =
     (if \<not> truthy_str (bidderId h) \<or> \<not> truthy_num (winningBid h) then False
      else
        (case (bidderId h, winningBid h) of
           (Some b, Some bid) \<Rightarrow>
             let bidderMeld = or0 (map_of (playerMeld h) b);
                 bidderScore = or0 (map_of (playerScores h) b)
             in bidderMeld + bidderScore < bid
         | _ \<Rightarrow> False))"

definition getPlayerHandTotal :: "GameHand \<Rightarrow> string \<Rightarrow> int" where
  "getPlayerHandTotal h pid =
     (let meld = or0 (map_of (playerMeld h) pid);
          sc = or0 (map_of (playerScores h) pid)
      in meld + sc)"

text \<open>
  \<open>validate\<close>: the \<open>for ... in\<close> loop over \<open>playerMeld\<close> visits the stored entries in
  order; \<open>players.find(...)?.name || 'Player'\<close> falls back to \<open>Player\<close> for an unknown
  id and for an empty name.
\<close>

definition displayName :: "Player list \<Rightarrow> string \<Rightarrow> string" where
  "displayName ps pid =
     (case find (\<lambda>p. p_id p = pid) ps of
        None \<Rightarrow> ''Player''
      | Some p \<Rightarrow> if p_name p = [] then ''Player'' else p_name p)"

definition meldMessage :: "Player list \<Rightarrow> string \<Rightarrow> string" where
  "meldMessage ps pid = displayName ps pid @ [CHR 0x27] @ ''s meld must be divisible by 10''"

fun meldErrors :: "Player list \<Rightarrow> int jsobj \<Rightarrow> string list \<Rightarrow> string list" where
  "meldErrors ps [] errs = errs"
| "meldErrors ps ((pid, meld) # rest) errs =
     (if js_rem meld 10 \<noteq> Num 0
      then meldErrors ps rest (errs @ [meldMessage ps pid])
      else meldErrors ps rest errs)"

text \<open>
  \<open>Object.values(playerScores).reduce((sum, score) => sum + (score / 10), 0)\<close>: each
  quotient and each partial sum is rounded to a double.
\<close>

definition sumTricks :: "int list \<Rightarrow> rat" where
  "sumTricks scs = foldl (\<lambda>sum sc. to_double (sum + to_double (of_int sc / 10))) 0 scs"

definition totalTricks :: "GameHand \<Rightarrow> rat" where
  "totalTricks h = sumTricks (map snd (playerScores h))"

record ValidationResult =
  valid :: bool
  errors :: "string list"

definition validate :: "Player list \<Rightarrow> GameHand \<Rightarrow> ValidationResult" where
  "validate ps h =
     (let errs1 = meldErrors ps (playerMeld h) [];
          errs2 = (if totalTricks h > 25
                   then errs1 @ [''Total tricks cannot exceed 25''] else errs1)
      in \<lparr> valid = (length errs2 = 0), errors = errs2 \<rparr>)"

text \<open>
  The plain object of \<open>toData\<close> and \<open>fromData\<close>. The properties that \<open>fromData\<close> reads
  through \<open>|| default\<close> may be missing (\<open>None\<close>).
\<close>

record HandData =
  handNumberD :: int
  winningBidD :: "int option"
  bidderIdD :: "string option"
  bidderNameD :: "string option"
  playerMeldD :: "int jsobj option"
  playerScoresD :: "int jsobj option"
  timestampD :: string
  dealerIdD :: string
  dealerNameD :: string
  thrownInD :: "bool option"

definition GameHand_fromData :: "string \<Rightarrow> HandData \<Rightarrow> GameHand" where
  "GameHand_fromData now d =
     (let hand = newGameHand now (handNumberD d) (dealerIdD d) (dealerNameD d)
      in hand\<lparr> winningBid := winningBidD d,
               bidderId := bidderIdD d,
               bidderName := bidderNameD d,
               playerMeld := (case playerMeldD d of None \<Rightarrow> [] | Some m \<Rightarrow> m),
               playerScores := (case playerScoresD d of None \<Rightarrow> [] | Some m \<Rightarrow> m),
               timestamp := timestampD d,
               thrownIn := (case thrownInD d of None \<Rightarrow> False | Some b \<Rightarrow> b) \<rparr>)"

definition GameHand_toData :: "GameHand \<Rightarrow> HandData" where
  "GameHand_toData h =
     \<lparr> handNumberD = handNumber h, winningBidD = winningBid h, bidderIdD = bidderId h,
       bidderNameD = bidderName h, playerMeldD = Some (playerMeld h),
       playerScoresD = Some (playerScores h), timestampD = timestamp h,
       dealerIdD = dealerId h, dealerNameD = dealerName h, thrownInD = Some (thrownIn h) \<rparr>"

text \<open>The operations that mutate a hand, as data, to speak about sequences of calls.\<close>

datatype hand_op =
    SetWinningBid int string string
  | SetPlayerMeld string int
  | SetPlayerScore string int
  | ThrowIn

fun apply_hand_op :: "hand_op \<Rightarrow> GameHand \<Rightarrow> GameHand" where
  "apply_hand_op (SetWinningBid bid bId bName) h = setWinningBid bid bId bName h"
| "apply_hand_op (SetPlayerMeld pid meld) h = setPlayerMeld pid meld h"
| "apply_hand_op (SetPlayerScore pid sc) h = setPlayerScore pid sc h"
| "apply_hand_op ThrowIn h = throwIn h"

fun apply_hand_ops :: "hand_op list \<Rightarrow> GameHand \<Rightarrow> GameHand" where
  "apply_hand_ops [] h = h"
| "apply_hand_ops (x # xs) h = apply_hand_ops xs (apply_hand_op x h)"

section \<open>Game (the class \<open>Game\<close> of models/Game.js)\<close>

text \<open>
  The source of the class is the part of
  \<^verbatim>\<open>src/src/__tests__/services/StorageService.test.js\<close> that starts with
  \<^verbatim>\<open>import GameHand from './GameHand.js'\<close> (lines 492 to 702).
\<close>

record ScoreEntry =
  playerId :: string
  name :: string
  score :: int

text \<open>
  \<open>teamAssignments\<close> is a property the game controller attaches to a 4-player game
  object (\<open>{teamA: [...], teamB: [...]}\<close>). The class itself never declares, reads or
  stores it: the constructor leaves it undefined (\<open>None\<close>) and \<open>toData\<close> omits it.
\<close>

record TeamAssignments =
  teamA :: "Player list"
  teamB :: "Player list"

text \<open>
  The fields of a session. The \<open>scores\<close> field is an array of entry objects that the
  methods mutate in place and never replace. In a \<open>Game\<close> the array is written out:
  that is the session as its own methods see it. In a \<open>GameObject\<close> the field holds
  the address of the array in a store, so that two objects can share one array.
\<close>

record 's GameOf =
  game_id :: string
  gameType :: int
  players :: "Player list"
  hands :: "GameHand list"
  scores :: 's
  startTime :: string
  endTime :: "string option"
  targetScore :: int
  dealerIndex :: jsnum
  winnerId :: "string option"
  winnerName :: "string option"
  teamAssignments :: "TeamAssignments option"

type_synonym addr = nat

type_synonym Game = "ScoreEntry list GameOf"

type_synonym GameObject = "addr GameOf"

text \<open>
  The constructor; \<open>nowMs\<close> is \<open>Date.now().toString()\<close> and \<open>nowIso\<close> is
  \<open>new Date().toISOString()\<close>.
\<close>

definition newGame :: "string \<Rightarrow> string \<Rightarrow> Player list \<Rightarrow> int \<Rightarrow> Game" where
  "newGame nowMs nowIso ps gt =
     \<lparr> game_id = nowMs, gameType = gt, players = ps, hands = [],
       scores = map (\<lambda>p. \<lparr> playerId = p_id p, name = p_name p, score = 0 \<rparr>) ps,
       startTime = nowIso, endTime = None,
       targetScore = (if gt = 2 then 1000 else 1500),
       dealerIndex = Num 0, winnerId = None, winnerName = None,
       teamAssignments = None \<rparr>"

definition getCurrentDealer :: "Game \<Rightarrow> Player option" where
  "getCurrentDealer g =
     (case dealerIndex g of
        Num d \<Rightarrow> if 0 \<le> d \<and> d < int (length (players g)) then Some (players g ! nat d) else None
      | NaN \<Rightarrow> None)"

definition advanceDealer :: "Game \<Rightarrow> Game" where
  "advanceDealer g =
     g\<lparr> dealerIndex :=
          (case dealerIndex g of
             Num d \<Rightarrow> js_rem (d + 1) (int (length (players g)))
           | NaN \<Rightarrow> NaN) \<rparr>"

definition getNextHandNumber :: "Game \<Rightarrow> int" where
  "getNextHandNumber g = int (length (hands g)) + 1"

text \<open>
  Reading \<open>.score\<close> of the result of \<open>scores.find(...)\<close> throws a \<open>TypeError\<close> when no
  entry matches. \<open>addToScore key d\<close> is \<open>scores.find(s => s.playerId === key).score += d\<close>:
  the first matching entry is the one updated.
\<close>

datatype error = TypeError

fun addToScore :: "string option \<Rightarrow> int \<Rightarrow> ScoreEntry list \<Rightarrow> error + ScoreEntry list" where
  "addToScore key d [] = Inl TypeError"
| "addToScore key d (s # ss) =
     (if Some (playerId s) = key then Inr (s\<lparr> score := score s + d \<rparr> # ss)
      else (case addToScore key d ss of
              Inl e \<Rightarrow> Inl e
            | Inr ss' \<Rightarrow> Inr (s # ss')))"

text \<open>The \<open>players.forEach\<close> of the branch where the bidder is set.\<close>

fun scoreOthers :: "GameHand \<Rightarrow> Player list \<Rightarrow> ScoreEntry list \<Rightarrow> error + ScoreEntry list" where
  "scoreOthers h [] ss = Inr ss"
| "scoreOthers h (p # ps) ss =
     (if Some (p_id p) \<noteq> bidderId h
      then (let meld = or0 (map_of (playerMeld h) (p_id p));
                sc = or0 (map_of (playerScores h) (p_id p))
            in case addToScore (Some (p_id p)) (meld + sc) ss of
                 Inl e \<Rightarrow> Inl e
               | Inr ss' \<Rightarrow> scoreOthers h ps ss')
      else scoreOthers h ps ss)"

text \<open>The \<open>players.forEach\<close> of the normal branch.\<close>

fun scoreAll :: "GameHand \<Rightarrow> Player list \<Rightarrow> ScoreEntry list \<Rightarrow> error + ScoreEntry list" where
  "scoreAll h [] ss = Inr ss"
| "scoreAll h (p # ps) ss =
     (let meld = or0 (map_of (playerMeld h) (p_id p));
          sc = or0 (map_of (playerScores h) (p_id p))
      in case addToScore (Some (p_id p)) (meld + sc) ss of
           Inl e \<Rightarrow> Inl e
         | Inr ss' \<Rightarrow> scoreAll h ps ss')"

text \<open>The callback of \<open>hands.forEach\<close>.\<close>

definition scoreHand :: "Player list \<Rightarrow> GameHand \<Rightarrow> ScoreEntry list \<Rightarrow> error + ScoreEntry list" where
  "scoreHand ps h ss =
     (if thrownIn h then Inr ss
      else if isBidderSet h
      then (case addToScore (bidderId h) (- to_number (winningBid h)) ss of
              Inl e \<Rightarrow> Inl e
            | Inr ss' \<Rightarrow> scoreOthers h ps ss')
      else scoreAll h ps ss)"

fun scoreHands :: "Player list \<Rightarrow> GameHand list \<Rightarrow> ScoreEntry list \<Rightarrow> error + ScoreEntry list" where
  "scoreHands ps [] ss = Inr ss"
| "scoreHands ps (h # hs) ss =
     (case scoreHand ps h ss of
        Inl e \<Rightarrow> Inl e
      | Inr ss' \<Rightarrow> scoreHands ps hs ss')"

text \<open>
  \<open>recalculateScores\<close> resets every score and runs the callback over the hands. When a
  lookup throws, the exception leaves the method at once; the model then returns the
  error alone, not the session with its partly recomputed scores.
\<close>

definition recalculateScores :: "Game \<Rightarrow> error + Game" where
  "recalculateScores g =
     (case scoreHands (players g) (hands g) (map (\<lambda>s. s\<lparr> score := 0 \<rparr>) (scores g)) of
        Inl e \<Rightarrow> Inl e
      | Inr ss \<Rightarrow> Inr (g\<lparr> scores := ss \<rparr>))"

definition addHand :: "GameHand \<Rightarrow> Game \<Rightarrow> error + Game" where
  "addHand h g =
     (case recalculateScores (g\<lparr> hands := hands g @ [h] \<rparr>) of
        Inl e \<Rightarrow> Inl e
      | Inr g' \<Rightarrow> Inr (advanceDealer g'))"

text \<open>
  \<open>checkForWinner\<close>: \<open>reduce\<close> without an initial value starts from the first element.
\<close>

definition checkForWinner :: "Game \<Rightarrow> ScoreEntry option" where
  "checkForWinner g =
     (let winningPlayers = filter (\<lambda>s. score s \<ge> targetScore g) (scores g)
      in case winningPlayers of
           [] \<Rightarrow> None
         | w # ws \<Rightarrow>
             Some (foldl (\<lambda>prev current. if score prev > score current then prev else current)
                     w ws))"

text \<open>\<open>endGame\<close>; \<open>now\<close> is \<open>new Date().toISOString()\<close>.\<close>

definition endGame :: "string \<Rightarrow> string \<Rightarrow> string \<Rightarrow> Game \<Rightarrow> Game" where
  "endGame now wId wName g =
     g\<lparr> endTime := Some now, winnerId := Some wId, winnerName := Some wName \<rparr>"

definition isCompleted :: "Game \<Rightarrow> bool" where
  "isCompleted g = (endTime g \<noteq> None)"

section \<open>Sessions in a store\<close>

text \<open>
  The store holds the score arrays by address; \<open>fresh\<close> is the next unused address.
  The other fields of a session are the object's own: the \<open>hands\<close> array is created
  anew by the constructor, by \<open>toData\<close> and by \<open>fromData\<close> (\<open>map\<close>) and so never
  shared between two sessions, and the \<open>players\<close> array is never written to.
\<close>

record Store =
  cells :: "addr \<Rightarrow> ScoreEntry list"
  fresh :: addr

definition emptyStore :: Store where
  "emptyStore = \<lparr> cells = (\<lambda>a. []), fresh = 0 \<rparr>"

definition alloc :: "ScoreEntry list \<Rightarrow> Store \<Rightarrow> addr \<times> Store" where
  "alloc v S = (fresh S, S\<lparr> cells := (cells S)(fresh S := v), fresh := fresh S + 1 \<rparr>)"

text \<open>The session an object stands for, its scores read through the reference.\<close>

definition deref :: "Store \<Rightarrow> GameObject \<Rightarrow> Game" where
  "deref S ob =
     \<lparr> game_id = game_id ob, gameType = gameType ob, players = players ob,
       hands = hands ob, scores = cells S (scores ob), startTime = startTime ob,
       endTime = endTime ob, targetScore = targetScore ob, dealerIndex = dealerIndex ob,
       winnerId = winnerId ob, winnerName = winnerName ob,
       teamAssignments = teamAssignments ob \<rparr>"

definition objectOf :: "Game \<Rightarrow> addr \<Rightarrow> GameObject" where
  "objectOf g a =
     \<lparr> game_id = game_id g, gameType = gameType g, players = players g,
       hands = hands g, scores = a, startTime = startTime g,
       endTime = endTime g, targetScore = targetScore g, dealerIndex = dealerIndex g,
       winnerId = winnerId g, winnerName = winnerName g,
       teamAssignments = teamAssignments g \<rparr>"

text \<open>
  A method call on an object: the method runs on the session the object stands for;
  the scores it leaves are written to the array the object refers to (where every
  object sharing that array sees them), the other fields to the object itself.
\<close>

definition call ::
  "(Game \<Rightarrow> error + Game) \<Rightarrow> GameObject \<Rightarrow> Store \<Rightarrow> error + GameObject \<times> Store" where
  "call m ob S =
     (case m (deref S ob) of
        Inl e \<Rightarrow> Inl e
      | Inr g \<Rightarrow> Inr (objectOf g (scores ob),
                      S\<lparr> cells := (cells S)(scores ob := scores g) \<rparr>))"

text \<open>\<open>new Game(players, gameType)\<close>: the constructor builds a new scores array.\<close>

definition newGameAt ::
  "string \<Rightarrow> string \<Rightarrow> Player list \<Rightarrow> int \<Rightarrow> Store \<Rightarrow> GameObject \<times> Store" where
  "newGameAt nowMs nowIso ps gt S =
     (let g = newGame nowMs nowIso ps gt;
          (a, S') = alloc (scores g) S
      in (objectOf g a, S'))"

text \<open>
  The plain object of \<open>toData\<close> and \<open>fromData\<close>. \<open>toData\<close> puts the scores array
  itself into it (\<open>scores: this.scores\<close>), not a copy: \<open>scoresD\<close> is the address.
\<close>

record GameData =
  game_idD :: string
  gameTypeD :: int
  playersD :: "Player list"
  handsD :: "HandData list"
  scoresD :: addr
  startTimeD :: string
  endTimeD :: "string option"
  targetScoreD :: int
  dealerIndexD :: jsnum
  winnerIdD :: "string option"
  winnerNameD :: "string option"

text \<open>
  \<open>fromData\<close> constructs a session (with a new scores array, dropped at once) and
  assigns the stored fields; \<open>game.scores = data.scores\<close> makes the session refer
  to the array that the data object holds.
\<close>

definition Game_fromData :: "string \<Rightarrow> string \<Rightarrow> GameData \<Rightarrow> Store \<Rightarrow> GameObject \<times> Store" where
  "Game_fromData nowMs nowIso d S =
     (let (game, S') = newGameAt nowMs nowIso (playersD d) (gameTypeD d) S
      in (game\<lparr> game_id := game_idD d,
                hands := map (GameHand_fromData nowIso) (handsD d),
                scores := scoresD d,
                startTime := startTimeD d,
                endTime := endTimeD d,
                targetScore := targetScoreD d,
                dealerIndex := dealerIndexD d,
                winnerId := winnerIdD d,
                winnerName := winnerNameD d \<rparr>, S'))"

definition Game_toData :: "GameObject \<Rightarrow> GameData" where
  "Game_toData ob =
     \<lparr> game_idD = game_id ob, gameTypeD = gameType ob, playersD = players ob,
       handsD = map GameHand_toData (hands ob), scoresD = scores ob,
       startTimeD = startTime ob, endTimeD = endTime ob, targetScoreD = targetScore ob,
       dealerIndexD = dealerIndex ob, winnerIdD = winnerId ob, winnerNameD = winnerName ob \<rparr>"

text \<open>
  The public operations of a session, as data, to speak about sequences of calls on
  one session. \<open>RoundTrip\<close> is \<open>Game.fromData(game.toData())\<close>, after which the sequence
  goes on with the restored object, as after saving to and loading from storage.
\<close>

datatype game_op =
    AddHand GameHand
  | RecalculateScores
  | EndGame string string string
  | AdvanceDealer
  | RoundTrip string string

fun run_op :: "game_op \<Rightarrow> GameObject \<times> Store \<Rightarrow> error + GameObject \<times> Store" where
  "run_op (AddHand h) (ob, S) = call (addHand h) ob S"
| "run_op RecalculateScores (ob, S) = call recalculateScores ob S"
| "run_op (EndGame now wId wName) (ob, S) = call (\<lambda>g. Inr (endGame now wId wName g)) ob S"
| "run_op AdvanceDealer (ob, S) = call (\<lambda>g. Inr (advanceDealer g)) ob S"
| "run_op (RoundTrip nowMs nowIso) (ob, S) = Inr (Game_fromData nowMs nowIso (Game_toData ob) S)"

text \<open>An operation that throws ends the sequence, as the exception would.\<close>

fun run_ops :: "game_op list \<Rightarrow> GameObject \<times> Store \<Rightarrow> error + GameObject \<times> Store" where
  "run_ops [] w = Inr w"
| "run_ops (x # xs) w =
     (case run_op x w of
        Inl e \<Rightarrow> Inl e
      | Inr w' \<Rightarrow> run_ops xs w')"

fun addedHands :: "game_op list \<Rightarrow> GameHand list" where
  "addedHands [] = []"
| "addedHands (AddHand h # xs) = h # addedHands xs"
| "addedHands (x # xs) = addedHands xs"

text \<open>
  Individual mode: a game of 2 or 3 players, or a 4-player game to which no team
  assignment has been attached.
\<close>

definition individualMode :: "Game \<Rightarrow> bool" where
  "individualMode g = (gameType g \<noteq> 4 \<or> teamAssignments g = None)"

section \<open>The scoring rule in the words of the specification\<close>

text \<open>
  What one hand contributes to the total of player \<open>pid\<close>: nothing when the hand was
  thrown in; when the bidder is set, minus the winning bid for the bidder and meld plus
  trick score (missing entries counting 0) for everybody else; otherwise meld plus trick
  score for everybody.
\<close>

definition handDelta :: "GameHand \<Rightarrow> string \<Rightarrow> int" where
  "handDelta h pid =
     (if thrownIn h then 0
      else if isBidderSet h
      then (if bidderId h = Some pid
            then (case winningBid h of None \<Rightarrow> 0 | Some bid \<Rightarrow> - bid)
            else getPlayerHandTotal h pid)
      else getPlayerHandTotal h pid)"

text \<open>The fold of the hands, in order, from a zero baseline.\<close>

definition replayedTotal :: "GameHand list \<Rightarrow> string \<Rightarrow> int" where
  "replayedTotal hs pid = foldl (\<lambda>total h. total + handDelta h pid) 0 hs"

definition replayedScores :: "GameHand list \<Rightarrow> ScoreEntry list \<Rightarrow> ScoreEntry list" where
  "replayedScores hs ss = map (\<lambda>s. s\<lparr> score := replayedTotal hs (playerId s) \<rparr>) ss"

text \<open>
  A session is well formed when its score entries follow its players (as the constructor
  builds them) and the players have distinct ids. A hand fits a player list when its
  bidder, if the hand is scored as set, is one of the players.
\<close>

definition wellFormed :: "Game \<Rightarrow> bool" where
  "wellFormed g =
     (distinct (map p_id (players g)) \<and> map playerId (scores g) = map p_id (players g))"

definition bidderKnown :: "Player list \<Rightarrow> GameHand \<Rightarrow> bool" where
  "bidderKnown ps h =
     (if \<not> thrownIn h \<and> isBidderSet h
      then bidderId h \<in> set (map (\<lambda>p. Some (p_id p)) ps) else True)"

text \<open>Adding \<open>f pid\<close> to the score of every entry: the shape of each step of the engine.\<close>

definition bump :: "(string \<Rightarrow> int) \<Rightarrow> ScoreEntry list \<Rightarrow> ScoreEntry list" where
  "bump f ss = map (\<lambda>s. s\<lparr> score := score s + f (playerId s) \<rparr>) ss"

section \<open>Concrete sessions and hands\<close>

definition ex_players2 :: "Player list" where
  "ex_players2 = [\<lparr> p_id = ''p1'', p_name = ''A'' \<rparr>, \<lparr> p_id = ''p2'', p_name = ''B'' \<rparr>]"

definition ex_players4 :: "Player list" where
  "ex_players4 =
     [\<lparr> p_id = ''player1'', p_name = ''Alice'' \<rparr>, \<lparr> p_id = ''player2'', p_name = ''Bob'' \<rparr>,
      \<lparr> p_id = ''player3'', p_name = ''Charlie'' \<rparr>, \<lparr> p_id = ''player4'', p_name = ''Diana'' \<rparr>]"

definition ex_hand_bid :: GameHand where
  "ex_hand_bid = setWinningBid 300 ''p1'' ''A'' (newGameHand ''t1'' 1 ''p2'' ''B'')"

text \<open>Bid 300, bidder total 50 + 250 = 300: an exact make.\<close>

definition ex_hand_exact :: GameHand where
  "ex_hand_exact = setPlayerScore ''p1'' 250 (setPlayerMeld ''p1'' 50 ex_hand_bid)"

text \<open>Bid 300, bidder total 50 + 140 = 190: the bidder is set; the other player has 30 + 110.\<close>

definition ex_hand_set :: GameHand where
  "ex_hand_set = setPlayerScore ''p2'' 110 (setPlayerMeld ''p2'' 30
     (setPlayerScore ''p1'' 140 (setPlayerMeld ''p1'' 50 ex_hand_bid)))"

text \<open>Meld 55 and 33, tricks 15 + 12 = 27.\<close>

definition ex_hand_bad :: GameHand where
  "ex_hand_bad = setPlayerScore ''p2'' 120 (setPlayerScore ''p1'' 150
     (setPlayerMeld ''p2'' 33 (setPlayerMeld ''p1'' 55 ex_hand_bid)))"

text \<open>
  Meld 50, and the trick scores 1, 161 and 88: they add up to 250, and none is a
  multiple of 10.
\<close>

definition ex_hand_odd :: GameHand where
  "ex_hand_odd = setPlayerScore ''p3'' 88 (setPlayerScore ''p2'' 161
     (setPlayerScore ''p1'' 1 (setPlayerMeld ''p1'' 50 (newGameHand ''t1'' 1 ''p2'' ''B''))))"

definition ex_hand_thrown :: GameHand where
  "ex_hand_thrown = throwIn (newGameHand ''t2'' 2 ''p1'' ''A'')"

text \<open>Both players reach 1000 in one hand (bid 300 by \<open>p1\<close>, made).\<close>

definition ex_hand_tie :: GameHand where
  "ex_hand_tie = setPlayerScore ''p2'' 100 (setPlayerMeld ''p2'' 900
     (setPlayerScore ''p1'' 150 (setPlayerMeld ''p1'' 850 ex_hand_bid)))"

definition ex_game2 :: Game where
  "ex_game2 = newGame ''1700000000000'' ''t0'' ex_players2 2"

definition ex_game_tie :: Game where
  "ex_game_tie =
     ex_game2\<lparr> hands := [ex_hand_tie],
               scores := [\<lparr> playerId = ''p1'', name = ''A'', score = 1000 \<rparr>,
                          \<lparr> playerId = ''p2'', name = ''B'', score = 1000 \<rparr>],
               dealerIndex := Num 1 \<rparr>"

text \<open>
  The 4-player scenario: teams \<open>[player1, player3]\<close> with 800 + 750 and
  \<open>[player2, player4]\<close> with 600 + 700, target 1500.
\<close>

definition ex_game_team :: Game where
  "ex_game_team =
     (newGame ''1700000000000'' ''t0'' ex_players4 4)
       \<lparr> scores := [\<lparr> playerId = ''player1'', name = ''Alice'', score = 800 \<rparr>,
                    \<lparr> playerId = ''player2'', name = ''Bob'', score = 600 \<rparr>,
                    \<lparr> playerId = ''player3'', name = ''Charlie'', score = 750 \<rparr>,
                    \<lparr> playerId = ''player4'', name = ''Diana'', score = 700 \<rparr>],
         teamAssignments := Some \<lparr> teamA = [ex_players4 ! 0, ex_players4 ! 2],
                                    teamB = [ex_players4 ! 1, ex_players4 ! 3] \<rparr> \<rparr>"

text \<open>
  A run of the public operations: a thrown-in hand, an extra dealer rotation, a hand on
  which the bidder is set, the end of the game, a storage round trip and a
  recomputation.
\<close>

definition ex_ops :: "game_op list" where
  "ex_ops = [AddHand ex_hand_thrown, AdvanceDealer, AddHand ex_hand_set,
             EndGame ''t9'' ''p2'' ''B'', RoundTrip ''1700000000001'' ''t10'',
             RecalculateScores]"

text \<open>
  Two objects on one scores array: a new 2-player session, a second session restored
  from its \<open>toData()\<close>, and then \<open>addHand\<close> of the set hand on the first one.
  \<open>ex_second\<close> is the second session as it stands after that call.
\<close>

definition ex_first :: "GameObject \<times> Store" where
  "ex_first = newGameAt ''1700000000000'' ''t0'' ex_players2 2 emptyStore"

definition ex_restored :: "GameObject \<times> Store" where
  "ex_restored =
     Game_fromData ''1700000000001'' ''t10'' (Game_toData (fst ex_first)) (snd ex_first)"

definition ex_after :: "error + GameObject \<times> Store" where
  "ex_after = call (addHand ex_hand_set) (fst ex_first) (snd ex_restored)"

definition ex_second :: Game where
  "ex_second = deref (snd (projr ex_after)) (fst ex_restored)"

section \<open>Facts about hands\<close>

lemmas hand_defs =
  newGameHand_def setWinningBid_def setPlayerMeld_def setPlayerScore_def throwIn_def

lemma ex_hand_set_fields:
  "bidderId ex_hand_set = Some ''p1''" "winningBid ex_hand_set = Some 300"
  "playerMeld ex_hand_set = [(''p1'', 50), (''p2'', 30)]"
  "playerScores ex_hand_set = [(''p1'', 140), (''p2'', 110)]"
  "thrownIn ex_hand_set = False"
  by (simp_all add: ex_hand_set_def ex_hand_bid_def hand_defs)

lemma ex_hand_exact_fields:
  "bidderId ex_hand_exact = Some ''p1''" "winningBid ex_hand_exact = Some 300"
  "playerMeld ex_hand_exact = [(''p1'', 50)]" "playerScores ex_hand_exact = [(''p1'', 250)]"
  by (simp_all add: ex_hand_exact_def ex_hand_bid_def hand_defs)

lemma ex_hand_bad_fields:
  "playerMeld ex_hand_bad = [(''p1'', 55), (''p2'', 33)]"
  "playerScores ex_hand_bad = [(''p1'', 150), (''p2'', 120)]"
  by (simp_all add: ex_hand_bad_def ex_hand_bid_def hand_defs)

text \<open>
  C5. \<open>isBidderSet()\<close> is true exactly when a bidder and a bid are set and the bidder's
  meld plus trick score (missing entries counting 0) is strictly below the bid. The
  test in the code is \<open>!this.bidderId || !this.winningBid\<close>, so "set" is JavaScript
  truthiness: not \<open>null\<close>, and also not the empty id and not the bid 0. For a hand with a
  non-empty bidder id and a non-negative bidder total that is the same as "not null".
  An exact make is not a set, and a hand without bidder or without bid is never set.
\<close>

theorem isBidderSet_iff:
  "(isBidderSet h \<longleftrightarrow>
      (\<exists>b bid. bidderId h = Some b \<and> b \<noteq> [] \<and> winningBid h = Some bid \<and> bid \<noteq> 0 \<and>
         getPlayerHandTotal h b < bid))
   \<and> (\<forall>b bid. bidderId h = Some b \<longrightarrow> winningBid h = Some bid \<longrightarrow> b \<noteq> [] \<longrightarrow>
         0 \<le> getPlayerHandTotal h b \<longrightarrow>
         isBidderSet h = (getPlayerHandTotal h b < bid))
   \<and> (\<forall>b bid. bidderId h = Some b \<longrightarrow> winningBid h = Some bid \<longrightarrow>
         getPlayerHandTotal h b = bid \<longrightarrow> \<not> isBidderSet h)
   \<and> (bidderId h = None \<or> winningBid h = None \<longrightarrow> \<not> isBidderSet h)
   \<and> getPlayerHandTotal h pid
        = or0 (map_of (playerMeld h) pid) + or0 (map_of (playerScores h) pid)"
  by (auto simp: isBidderSet_def truthy_str_def truthy_num_def getPlayerHandTotal_def Let_def
           split: option.splits)

theorem isBidderSet_iff_witness:
  "isBidderSet ex_hand_set \<and> \<not> isBidderSet ex_hand_exact
   \<and> \<not> isBidderSet (newGameHand ''t1'' 1 ''p2'' ''B'')"
proof -
  have a: "getPlayerHandTotal ex_hand_set ''p1'' = 190"
    by (simp add: ex_hand_set_fields getPlayerHandTotal_def or0_def)
  have b: "getPlayerHandTotal ex_hand_exact ''p1'' = 300"
    by (simp add: ex_hand_exact_fields getPlayerHandTotal_def or0_def)
  have c: "bidderId (newGameHand ''t1'' 1 ''p2'' ''B'') = None"
    by (simp add: newGameHand_def)
  from isBidderSet_iff [of ex_hand_set] a have "isBidderSet ex_hand_set"
    by (simp add: ex_hand_set_fields)
  moreover from isBidderSet_iff [of ex_hand_exact] b have "\<not> isBidderSet ex_hand_exact"
    by (simp add: ex_hand_exact_fields)
  moreover from isBidderSet_iff [of "newGameHand ''t1'' 1 ''p2'' ''B''"] c
  have "\<not> isBidderSet (newGameHand ''t1'' 1 ''p2'' ''B'')" by simp
  ultimately show ?thesis by simp
qed

text \<open>
  C7. \<open>GameHand.fromData(hand.toData())\<close> has the same ten fields as \<open>hand\<close>, for every
  hand (thrown in or not) and whatever the clock reads when the copy is constructed.
\<close>

theorem GameHand_roundtrip: "GameHand_fromData now (GameHand_toData h) = h"
  by (simp add: GameHand_fromData_def GameHand_toData_def newGameHand_def)

subsection \<open>validate\<close>

lemma js_rem_10_iff: "js_rem m 10 \<noteq> Num 0 \<longleftrightarrow> \<not> 10 dvd m"
proof -
  have "sgn m * (\<bar>m\<bar> mod 10) = 0 \<longleftrightarrow> 10 dvd m"
    by (cases "m = 0") (auto simp: sgn_if dvd_eq_mod_eq_0 [symmetric])
  then show ?thesis by (simp add: js_rem_def)
qed

lemma meldErrors_eq:
  "meldErrors ps kvs errs =
     errs @ map (\<lambda>(pid, meld). meldMessage ps pid) (filter (\<lambda>(pid, meld). \<not> 10 dvd meld) kvs)"
  by (induction ps kvs errs rule: meldErrors.induct) (simp_all add: js_rem_10_iff)

text \<open>\<open>binade\<close> brackets its argument between two powers of 2.\<close>

lemma binade_ge_one:
  assumes "1 \<le> x"
  shows "2 ^ nat (binade x) \<le> x \<and> x < 2 ^ nat (binade x + 1) \<and> 0 \<le> binade x"
proof -
  let ?n = "\<lfloor>x\<rfloor>"
  have n1: "1 \<le> ?n" using assms by simp
  then have n0: "0 < ?n" by simp
  from bitlen_bounds [OF n0]
  have lo: "2 ^ nat (bitlen ?n - 1) \<le> ?n" and hi: "?n < 2 ^ nat (bitlen ?n)" by simp_all
  have b: "binade x = bitlen ?n - 1" using assms by (simp add: binade_def)
  have ge: "1 \<le> bitlen ?n" using n1 by (simp add: bitlen_ge_iff_power)
  have "(of_int (2 ^ nat (bitlen ?n - 1)) :: rat) \<le> of_int ?n" using lo by (simp only: of_int_le_iff)
  also have "\<dots> \<le> x" by simp
  finally have 1: "2 ^ nat (binade x) \<le> x" by (simp add: b)
  have "?n + 1 \<le> 2 ^ nat (bitlen ?n)" using hi by simp
  then have "(of_int (?n + 1) :: rat) \<le> of_int (2 ^ nat (bitlen ?n))" by (simp only: of_int_le_iff)
  moreover have "x < of_int (?n + 1)" by linarith
  ultimately have "x < of_int (2 ^ nat (bitlen ?n))" by linarith
  then have 2: "x < 2 ^ nat (binade x + 1)" by (simp add: b)
  show ?thesis using 1 2 b ge by simp
qed

lemma binade_lt_one:
  assumes "0 < x" "x < 1"
  shows "1 / 2 ^ nat (- binade x) \<le> x \<and> x < 2 / 2 ^ nat (- binade x) \<and> binade x < 0"
proof -
  let ?y = "1 / x"
  let ?m = "\<lceil>?y\<rceil>"
  have y1: "1 < ?y" using assms by simp
  then have m2: "2 \<le> ?m" by linarith
  then have m0: "0 < ?m - 1" by simp
  from bitlen_bounds [OF m0]
  have lo: "2 ^ nat (bitlen (?m - 1) - 1) \<le> ?m - 1" and hi: "?m - 1 < 2 ^ nat (bitlen (?m - 1))"
    by simp_all
  have b: "binade x = - bitlen (?m - 1)" using assms by (simp add: binade_def)
  have ge: "1 \<le> bitlen (?m - 1)" using m2 by (simp add: bitlen_ge_iff_power)
  define k where "k = nat (bitlen (?m - 1))"
  have k: "nat (- binade x) = k" "nat (bitlen (?m - 1) - 1) = k - 1" "0 < k"
    using ge by (simp_all add: b k_def nat_diff_distrib)
  have "?m \<le> 2 ^ k" using hi by (simp add: k_def)
  then have "(of_int ?m :: rat) \<le> of_int (2 ^ k)" by (simp only: of_int_le_iff)
  then have mk: "(of_int ?m :: rat) \<le> 2 ^ k" by simp
  have "?y \<le> of_int ?m" by (rule le_of_int_ceiling)
  then have yle: "?y \<le> 2 ^ k" using mk by (rule order_trans)
  have "(of_int (2 ^ (k - 1)) :: rat) \<le> of_int (?m - 1)" using lo k by (simp only: of_int_le_iff)
  then have km: "(2::rat) ^ (k - 1) \<le> of_int (?m - 1)" by simp
  have "of_int (?m - 1) < ?y" by linarith
  with km have ylt: "2 ^ (k - 1) < ?y" by (rule order_le_less_trans)
  have p: "(0::rat) < 2 ^ k" by simp
  have 1: "1 / 2 ^ k \<le> x"
    using yle assms(1) p by (simp add: field_simps)
  have "(2::rat) ^ k = 2 * 2 ^ (k - 1)" using k(3) by (cases k) simp_all
  then have "2 ^ k < 2 * ?y" using ylt by simp
  then have 2: "x < 2 / 2 ^ k"
    using assms(1) p by (simp add: field_simps)
  show ?thesis using 1 2 k ge by (simp add: b)
qed

lemma to_double_tenth: "to_double (1 / 10) = 3602879701896397 / 2 ^ 55"
  by code_simp

lemma round_even_of_int: "round_even (of_int m) = m"
  by (simp add: round_even_def)

text \<open>An integer below \<open>2^53\<close> in absolute value is a double.\<close>

lemma to_double_of_int:
  assumes "\<bar>n\<bar> < 2 ^ 53"
  shows "to_double (of_int n) = of_int n"
proof (cases "n = 0")
  case True
  then show ?thesis by (simp add: to_double_def)
next
  case False
  define a where "a = \<bar>n\<bar>"
  have a1: "1 \<le> a" using False by (simp add: a_def)
  have abs: "\<bar>(of_int n :: rat)\<bar> = of_int a" by (simp add: a_def)
  have "(1::rat) \<le> of_int a" using a1 by simp
  then have b: "binade (of_int a) = bitlen a - 1" by (simp add: binade_def)
  have le: "bitlen a \<le> 53"
    using assms by (simp add: bitlen_le_iff_power a_def)
  have ge: "1 \<le> bitlen a"
    using a1 by (simp add: bitlen_ge_iff_power)
  define k where "k = nat (53 - bitlen a)"
  have u: "ulp (of_int n) = 1 / 2 ^ k"
  proof (cases "bitlen a = 53")
    case True
    then show ?thesis by (simp add: ulp_def abs b k_def)
  next
    case False
    with le have "bitlen a - 1 < 52" by simp
    then show ?thesis by (simp add: ulp_def abs b k_def Let_def)
  qed
  have "(of_int n :: rat) / ulp (of_int n) = of_int (n * 2 ^ k)" by (simp add: u)
  then have "round_even (of_int n / ulp (of_int n)) = n * 2 ^ k"
    by (simp only: round_even_of_int)
  then show ?thesis using False by (simp add: to_double_def u)
qed

lemma dvd_sum_list: "\<forall>x \<in> set xs. (d::int) dvd x \<Longrightarrow> d dvd sum_list xs"
  by (induction xs) auto

lemma sumTricks_step:
  assumes d: "\<forall>sc \<in> set scs. 10 dvd sc"
    and b: "\<bar>k\<bar> + (\<Sum>sc\<leftarrow>scs. \<bar>sc\<bar>) < 2 ^ 53"
  shows "foldl (\<lambda>sum sc. to_double (sum + to_double (of_int sc / 10))) (of_int k) scs
           = of_int (k + sum_list scs div 10)"
  using assms
proof (induction scs arbitrary: k)
  case Nil
  then show ?case by simp
next
  case (Cons sc scs)
  from Cons.prems(1) obtain m where m: "sc = 10 * m" by auto
  have nonneg: "0 \<le> (\<Sum>sc\<leftarrow>scs. \<bar>sc\<bar>)" by (rule sum_list_nonneg) auto
  have bm: "\<bar>m\<bar> < 2 ^ 53" using Cons.prems(2) nonneg m by simp
  have bkm: "\<bar>k + m\<bar> < 2 ^ 53" using Cons.prems(2) nonneg m by simp
  have q: "(of_int sc :: rat) / 10 = of_int m" by (simp add: m)
  have s1: "to_double (of_int k + to_double (of_int sc / 10)) = of_int (k + m)"
    using to_double_of_int [OF bm] to_double_of_int [OF bkm] by (simp add: q)
  have d': "\<forall>sc \<in> set scs. 10 dvd sc" using Cons.prems(1) by simp
  have b': "\<bar>k + m\<bar> + (\<Sum>sc\<leftarrow>scs. \<bar>sc\<bar>) < 2 ^ 53"
    using Cons.prems(2) m by simp
  have dv: "10 dvd sum_list scs" using d' by (rule dvd_sum_list)
  have "(sc + sum_list scs) div 10 = m + sum_list scs div 10"
    using dv by (simp add: m)
  then show ?case
    using Cons.IH [OF d' b'] by (simp add: s1 add.assoc)
qed

text \<open>
  On trick scores that are multiples of 10 and not huge, no rounding happens: the total
  is the sum of the scores divided by 10.
\<close>

lemma totalTricks_exact:
  assumes d: "\<forall>(pid, sc) \<in> set (playerScores h). 10 dvd sc"
    and b: "(\<Sum>(pid, sc)\<leftarrow>playerScores h. \<bar>sc\<bar>) < 2 ^ 53"
  shows "totalTricks h = of_int (sum_list (map snd (playerScores h))) / 10"
proof -
  let ?scs = "map snd (playerScores h)"
  have d': "\<forall>sc \<in> set ?scs. 10 dvd sc" using d by auto
  have "(\<Sum>sc\<leftarrow>?scs. \<bar>sc\<bar>) = (\<Sum>(pid, sc)\<leftarrow>playerScores h. \<bar>sc\<bar>)"
    by (simp add: comp_def case_prod_unfold)
  then have b': "\<bar>0\<bar> + (\<Sum>sc\<leftarrow>?scs. \<bar>sc\<bar>) < 2 ^ 53" using b by simp
  have dv: "10 dvd sum_list ?scs" using d' by (rule dvd_sum_list)
  have "totalTricks h = of_int (sum_list ?scs div 10)"
    using sumTricks_step [OF d' b'] by (simp add: totalTricks_def sumTricks_def)
  also have "\<dots> = of_int (sum_list ?scs) / 10"
    using dv by (auto elim!: dvdE)
  finally show ?thesis .
qed

lemma sumTricks_odd: "sumTricks [1, 161, 88] = 25 + 1 / 2 ^ 48"
  by code_simp

lemma ex_hand_odd_fields:
  "playerMeld ex_hand_odd = [(''p1'', 50)]"
  "playerScores ex_hand_odd = [(''p1'', 1), (''p2'', 161), (''p3'', 88)]"
  by (simp_all add: ex_hand_odd_def hand_defs)

lemma errors_of_validate:
  "errors (validate ps h) =
     map (\<lambda>(pid, meld). meldMessage ps pid)
       (filter (\<lambda>(pid, meld). \<not> 10 dvd meld) (playerMeld h))
     @ (if totalTricks h > 25 then [''Total tricks cannot exceed 25''] else [])"
  by (simp add: validate_def Let_def meldErrors_eq)

text \<open>
  C8, as stated, fails where the trick scores are not multiples of 10. With the meld
  50 stored and the trick scores 1, 161 and 88, the sum of the scores divided by 10 is
  exactly 25; the code adds the doubles nearest to 0.1, 16.1 and 8.8, rounding each
  partial sum, and arrives at \<open>25 + 2^(-48)\<close>, which is greater than 25: it reports
  \<open>Total tricks cannot exceed 25\<close>.
\<close>

theorem validate_rounding_counterexample:
  "map snd (playerMeld ex_hand_odd) = [50]
   \<and> map snd (playerScores ex_hand_odd) = [1, 161, 88]
   \<and> of_int (sum_list (map snd (playerScores ex_hand_odd))) / 10 = (25 :: rat)
   \<and> totalTricks ex_hand_odd = 25 + 1 / 2 ^ 48
   \<and> errors (validate ex_players2 ex_hand_odd) = [''Total tricks cannot exceed 25'']"
proof -
  have t: "totalTricks ex_hand_odd = 25 + 1 / 2 ^ 48"
    by (simp add: totalTricks_def ex_hand_odd_fields sumTricks_odd)
  have "(25 :: rat) < 25 + 1 / 2 ^ 48" by simp
  then have "errors (validate ex_players2 ex_hand_odd) = [''Total tricks cannot exceed 25'']"
    unfolding errors_of_validate t by (simp add: ex_hand_odd_fields)
  then show ?thesis using t by (simp add: ex_hand_odd_fields)
qed

text \<open>
  C8, amended. For every hand, the errors of \<open>validate(players)\<close> are one message for
  each stored meld that is not a multiple of 10, in the order of the entries, followed
  by one message when the total that the code computes exceeds 25; \<open>valid\<close> says
  whether there is none. For every hand whose stored trick scores are multiples of 10
  with absolute values adding up to less than \<open>2^53\<close>, that total is the sum of the
  stored trick scores divided by 10, and \<open>validate\<close> returns no error exactly when
  every stored meld is a multiple of 10 and that quotient is at most 25. \<open>validate\<close>
  assigns to no field of the hand: it is a function of the hand and the players that
  returns only the result.
\<close>

theorem validate_errors:
  "errors (validate ps h) =
       map (\<lambda>(pid, meld). meldMessage ps pid)
         (filter (\<lambda>(pid, meld). \<not> 10 dvd meld) (playerMeld h))
       @ (if totalTricks h > 25 then [''Total tricks cannot exceed 25''] else [])
   \<and> valid (validate ps h) = (errors (validate ps h) = [])
   \<and> ((\<forall>(pid, sc) \<in> set (playerScores h). 10 dvd sc)
        \<and> (\<Sum>(pid, sc)\<leftarrow>playerScores h. \<bar>sc\<bar>) < 2 ^ 53 \<longrightarrow>
        totalTricks h = of_int (sum_list (map snd (playerScores h))) / 10
        \<and> (errors (validate ps h) = [] \<longleftrightarrow>
             (\<forall>(pid, meld) \<in> set (playerMeld h). 10 dvd meld)
             \<and> of_int (sum_list (map snd (playerScores h))) / 10 \<le> (25 :: rat)))"
proof (intro conjI impI)
  show "errors (validate ps h) =
       map (\<lambda>(pid, meld). meldMessage ps pid)
         (filter (\<lambda>(pid, meld). \<not> 10 dvd meld) (playerMeld h))
       @ (if totalTricks h > 25 then [''Total tricks cannot exceed 25''] else [])"
    by (rule errors_of_validate)
  show "valid (validate ps h) = (errors (validate ps h) = [])"
    by (simp add: validate_def Let_def)
next
  assume hyp: "(\<forall>(pid, sc) \<in> set (playerScores h). 10 dvd sc)
        \<and> (\<Sum>(pid, sc)\<leftarrow>playerScores h. \<bar>sc\<bar>) < 2 ^ 53"
  then show t: "totalTricks h = of_int (sum_list (map snd (playerScores h))) / 10"
    by (intro totalTricks_exact) simp_all
  show "errors (validate ps h) = [] \<longleftrightarrow>
             (\<forall>(pid, meld) \<in> set (playerMeld h). 10 dvd meld)
             \<and> of_int (sum_list (map snd (playerScores h))) / 10 \<le> (25 :: rat)"
    unfolding errors_of_validate t [symmetric]
    by (auto simp: filter_empty_conv)
qed

theorem validate_errors_witness:
  "errors (validate ex_players2 ex_hand_set) = []
   \<and> errors (validate ex_players2 ex_hand_bad) =
       [''A'' @ [CHR 0x27] @ ''s meld must be divisible by 10'',
        ''B'' @ [CHR 0x27] @ ''s meld must be divisible by 10'',
        ''Total tricks cannot exceed 25'']"
proof -
  have h1: "(\<forall>(pid, sc) \<in> set (playerScores ex_hand_set). 10 dvd sc)
        \<and> (\<Sum>(pid, sc)\<leftarrow>playerScores ex_hand_set. \<bar>sc\<bar>) < 2 ^ 53"
    by (simp add: ex_hand_set_fields)
  have h2: "(\<forall>(pid, sc) \<in> set (playerScores ex_hand_bad). 10 dvd sc)
        \<and> (\<Sum>(pid, sc)\<leftarrow>playerScores ex_hand_bad. \<bar>sc\<bar>) < 2 ^ 53"
    by (simp add: ex_hand_bad_fields)
  note v1 = validate_errors [of ex_players2 ex_hand_set]
  note v2 = validate_errors [of ex_players2 ex_hand_bad]
  have "errors (validate ex_players2 ex_hand_set) = []"
    using v1 [THEN conjunct2, THEN conjunct2, THEN mp, OF h1, THEN conjunct2]
    by (simp add: ex_hand_set_fields)
  moreover have t2: "totalTricks ex_hand_bad = 27"
    using v2 [THEN conjunct2, THEN conjunct2, THEN mp, OF h2, THEN conjunct1]
    by (simp add: ex_hand_bad_fields)
  have "errors (validate ex_players2 ex_hand_bad) =
       [''A'' @ [CHR 0x27] @ ''s meld must be divisible by 10'',
        ''B'' @ [CHR 0x27] @ ''s meld must be divisible by 10'',
        ''Total tricks cannot exceed 25'']"
    using v2 [THEN conjunct1] unfolding t2
    by (simp add: ex_hand_bad_fields meldMessage_def displayName_def ex_players2_def)
  ultimately show ?thesis by simp
qed

subsection \<open>throwIn\<close>

lemma thrownIn_apply_hand_op: "thrownIn h \<Longrightarrow> thrownIn (apply_hand_op x h)"
  by (cases x) (simp_all add: hand_defs)

lemma thrownIn_apply_hand_ops: "thrownIn h \<Longrightarrow> thrownIn (apply_hand_ops xs h)"
  by (induction xs arbitrary: h) (simp_all add: thrownIn_apply_hand_op)

text \<open>
  C9, as stated, fails: the setters do not look at \<open>thrownIn\<close>. After \<open>throwIn()\<close> on a
  hand, \<open>setWinningBid(300, 'p1', 'A')\<close> stores the bid and the bidder, and
  \<open>setPlayerMeld\<close> and \<open>setPlayerScore\<close> store their values.
\<close>

theorem throwIn_then_setters_counterexample:
  "winningBid (throwIn ex_hand_set) = None
   \<and> winningBid (setWinningBid 300 ''p1'' ''A'' (throwIn ex_hand_set)) = Some 300
   \<and> bidderId (setWinningBid 300 ''p1'' ''A'' (throwIn ex_hand_set)) = Some ''p1''
   \<and> bidderName (setWinningBid 300 ''p1'' ''A'' (throwIn ex_hand_set)) = Some ''A''
   \<and> playerMeld (setPlayerMeld ''p1'' 50 (throwIn ex_hand_set)) = [(''p1'', 50)]
   \<and> playerScores (setPlayerScore ''p1'' 140 (throwIn ex_hand_set)) = [(''p1'', 140)]"
  by (simp add: hand_defs)

text \<open>
  C9, amended. Right after \<open>throwIn()\<close> the bid, the bidder id and the bidder name are
  \<open>null\<close>, both maps are empty and \<open>thrownIn\<close> is true. No operation of the hand resets
  \<open>thrownIn\<close>: it stays true after any sequence of \<open>setWinningBid\<close>, \<open>setPlayerMeld\<close>,
  \<open>setPlayerScore\<close> and \<open>throwIn\<close> calls. The setters themselves store their arguments on
  a thrown-in hand as on any other.
\<close>

theorem throwIn_clears_and_stays:
  "winningBid (throwIn h) = None \<and> bidderId (throwIn h) = None \<and> bidderName (throwIn h) = None
   \<and> playerMeld (throwIn h) = [] \<and> playerScores (throwIn h) = [] \<and> thrownIn (throwIn h)
   \<and> thrownIn (apply_hand_ops xs (throwIn h))
   \<and> winningBid (setWinningBid bid bId bName (throwIn h)) = Some bid
   \<and> bidderId (setWinningBid bid bId bName (throwIn h)) = Some bId
   \<and> bidderName (setWinningBid bid bId bName (throwIn h)) = Some bName
   \<and> playerMeld (setPlayerMeld pid meld (throwIn h)) = [(pid, meld)]
   \<and> playerScores (setPlayerScore pid sc (throwIn h)) = [(pid, sc)]"
proof -
  have "thrownIn (throwIn h)" by (simp add: throwIn_def)
  then have "thrownIn (apply_hand_ops xs (throwIn h))" by (rule thrownIn_apply_hand_ops)
  then show ?thesis by (simp add: hand_defs)
qed

section \<open>The scoring engine\<close>

lemma bump_ids [simp]: "map playerId (bump f ss) = map playerId ss"
  by (simp add: bump_def)

lemma bump_bump: "bump f (bump g ss) = bump (\<lambda>q. g q + f q) ss"
  by (simp add: bump_def add.assoc)

lemma bump_cong:
  "(\<And>s. s \<in> set ss \<Longrightarrow> f (playerId s) = g (playerId s)) \<Longrightarrow> bump f ss = bump g ss"
  by (simp add: bump_def)

lemma bump_zero: "(\<And>s. s \<in> set ss \<Longrightarrow> f (playerId s) = 0) \<Longrightarrow> bump f ss = ss"
  by (induction ss) (simp_all add: bump_def)

text \<open>With distinct ids, updating the first match is updating the only match.\<close>

lemma addToScore_bump:
  "distinct (map playerId ss) \<Longrightarrow> pid \<in> set (map playerId ss) \<Longrightarrow>
   addToScore (Some pid) d ss = Inr (bump (\<lambda>q. if q = pid then d else 0) ss)"
proof (induction ss)
  case Nil
  then show ?case by simp
next
  case (Cons s ss)
  show ?case
  proof (cases "playerId s = pid")
    case True
    with Cons.prems have "pid \<notin> playerId ` set ss" by simp
    then have "\<And>t. t \<in> set ss \<Longrightarrow> playerId t \<noteq> pid" by blast
    then have "bump (\<lambda>q. if q = pid then d else 0) ss = ss" by (intro bump_zero) simp
    then have "bump (\<lambda>q. if q = pid then d else 0) (s # ss) = s\<lparr>score := score s + d\<rparr> # ss"
      using True by (simp add: bump_def)
    with True show ?thesis by simp
  next
    case False
    with Cons.prems have "distinct (map playerId ss)" "pid \<in> set (map playerId ss)" by auto
    then have "addToScore (Some pid) d ss = Inr (bump (\<lambda>q. if q = pid then d else 0) ss)"
      by (rule Cons.IH)
    with False show ?thesis by (simp add: bump_def)
  qed
qed

lemma scoreAll_bump:
  "distinct (map playerId ss) \<Longrightarrow> distinct (map p_id ps) \<Longrightarrow>
   set (map p_id ps) \<subseteq> set (map playerId ss) \<Longrightarrow>
   scoreAll h ps ss =
     Inr (bump (\<lambda>q. if q \<in> set (map p_id ps) then getPlayerHandTotal h q else 0) ss)"
proof (induction ps arbitrary: ss)
  case Nil
  then show ?case by (simp add: bump_zero)
next
  case (Cons p ps)
  let ?ss1 = "bump (\<lambda>q. if q = p_id p then getPlayerHandTotal h (p_id p) else 0) ss"
  have a: "addToScore (Some (p_id p)) (getPlayerHandTotal h (p_id p)) ss = Inr ?ss1"
    using Cons.prems by (intro addToScore_bump) auto
  have b: "scoreAll h ps ?ss1 =
     Inr (bump (\<lambda>q. if q \<in> set (map p_id ps) then getPlayerHandTotal h q else 0) ?ss1)"
    using Cons.prems by (intro Cons.IH) auto
  have c: "p_id p \<notin> set (map p_id ps)" using Cons.prems by simp
  have "scoreAll h (p # ps) ss =
     Inr (bump (\<lambda>q. if q \<in> set (map p_id ps) then getPlayerHandTotal h q else 0) ?ss1)"
    using a b by (simp add: Let_def getPlayerHandTotal_def)
  also have "bump (\<lambda>q. if q \<in> set (map p_id ps) then getPlayerHandTotal h q else 0) ?ss1
      = bump (\<lambda>q. if q \<in> set (map p_id (p # ps)) then getPlayerHandTotal h q else 0) ss"
    unfolding bump_bump using c by (auto intro!: bump_cong)
  finally show ?case .
qed

lemma scoreOthers_bump:
  "distinct (map playerId ss) \<Longrightarrow> distinct (map p_id ps) \<Longrightarrow>
   set (map p_id ps) \<subseteq> set (map playerId ss) \<Longrightarrow>
   scoreOthers h ps ss =
     Inr (bump (\<lambda>q. if q \<in> set (map p_id ps) \<and> Some q \<noteq> bidderId h
                     then getPlayerHandTotal h q else 0) ss)"
proof (induction ps arbitrary: ss)
  case Nil
  then show ?case by (simp add: bump_zero)
next
  case (Cons p ps)
  let ?ss1 = "bump (\<lambda>q. if q = p_id p then getPlayerHandTotal h (p_id p) else 0) ss"
  let ?F = "\<lambda>q. if q \<in> set (map p_id ps) \<and> Some q \<noteq> bidderId h
                 then getPlayerHandTotal h q else 0"
  let ?G = "\<lambda>q. if q \<in> set (map p_id (p # ps)) \<and> Some q \<noteq> bidderId h
                 then getPlayerHandTotal h q else 0"
  have c: "p_id p \<notin> set (map p_id ps)" using Cons.prems by simp
  show ?case
  proof (cases "Some (p_id p) \<noteq> bidderId h")
    case True
    have a: "addToScore (Some (p_id p)) (getPlayerHandTotal h (p_id p)) ss = Inr ?ss1"
      using Cons.prems by (intro addToScore_bump) auto
    have b: "scoreOthers h ps ?ss1 = Inr (bump ?F ?ss1)"
      using Cons.prems by (intro Cons.IH) auto
    have "scoreOthers h (p # ps) ss = Inr (bump ?F ?ss1)"
      using True a b by (simp add: Let_def getPlayerHandTotal_def)
    also have "bump ?F ?ss1 = bump ?G ss"
      unfolding bump_bump using c True by (auto intro!: bump_cong)
    finally show ?thesis .
  next
    case False
    have b: "scoreOthers h ps ss = Inr (bump ?F ss)"
      using Cons.prems by (intro Cons.IH) auto
    have "scoreOthers h (p # ps) ss = Inr (bump ?F ss)"
      using False b by simp
    also have "bump ?F ss = bump ?G ss"
      using False by (auto intro!: bump_cong)
    finally show ?thesis .
  qed
qed

lemma isBidderSet_Some:
  "isBidderSet h \<Longrightarrow> \<exists>b bid. bidderId h = Some b \<and> winningBid h = Some bid"
  by (auto simp: isBidderSet_def truthy_str_def truthy_num_def split: option.splits)

lemma scoreHand_bump:
  assumes d: "distinct (map p_id ps)" and m: "map playerId ss = map p_id ps"
    and k: "bidderKnown ps h"
  shows "scoreHand ps h ss = Inr (bump (handDelta h) ss)"
proof -
  have dss: "distinct (map playerId ss)" using d m by simp
  have sub: "set (map p_id ps) \<subseteq> set (map playerId ss)" using m by simp
  have mem: "\<And>s. s \<in> set ss \<Longrightarrow> playerId s \<in> set (map p_id ps)"
    using m by (metis image_eqI set_map)
  show ?thesis
  proof (cases "thrownIn h")
    case True
    then show ?thesis by (simp add: scoreHand_def handDelta_def bump_zero)
  next
    case notThrown: False
    show ?thesis
    proof (cases "isBidderSet h")
      case True
      then obtain b bid where b: "bidderId h = Some b" "winningBid h = Some bid"
        using isBidderSet_Some by blast
      from k notThrown True b have "b \<in> set (map p_id ps)"
        by (auto simp: bidderKnown_def)
      then have bin: "b \<in> set (map playerId ss)" using m by simp
      let ?ss1 = "bump (\<lambda>q. if q = b then - bid else 0) ss"
      let ?F = "\<lambda>q. if q \<in> set (map p_id ps) \<and> Some q \<noteq> bidderId h
                     then getPlayerHandTotal h q else 0"
      have a1: "addToScore (Some b) (- bid) ss = Inr ?ss1"
        using dss bin by (rule addToScore_bump)
      have a2: "scoreOthers h ps ?ss1 = Inr (bump ?F ?ss1)"
        using dss d sub by (intro scoreOthers_bump) simp_all
      have "scoreHand ps h ss = Inr (bump ?F ?ss1)"
        using notThrown True b a1 a2 by (simp add: scoreHand_def to_number_def)
      also have "bump ?F ?ss1 = bump (handDelta h) ss"
        unfolding bump_bump
        using notThrown True b mem by (intro bump_cong) (auto simp: handDelta_def)
      finally show ?thesis .
    next
      case False
      have "scoreHand ps h ss = scoreAll h ps ss"
        using notThrown False by (simp add: scoreHand_def)
      also have "\<dots> = Inr (bump (\<lambda>q. if q \<in> set (map p_id ps)
                                      then getPlayerHandTotal h q else 0) ss)"
        using dss d sub by (rule scoreAll_bump)
      also have "bump (\<lambda>q. if q \<in> set (map p_id ps) then getPlayerHandTotal h q else 0) ss
                   = bump (handDelta h) ss"
        using notThrown False mem by (intro bump_cong) (auto simp: handDelta_def)
      finally show ?thesis .
    qed
  qed
qed

lemma foldl_delta_shift:
  "foldl (\<lambda>total h. total + handDelta h pid) a hs
     = a + foldl (\<lambda>total h. total + handDelta h pid) 0 hs"
proof (induction hs arbitrary: a)
  case Nil
  then show ?case by simp
next
  case (Cons h hs)
  show ?case
    using Cons.IH [of "a + handDelta h pid"] Cons.IH [of "handDelta h pid"] by simp
qed

lemma replayedTotal_Nil: "replayedTotal [] pid = 0"
  by (simp add: replayedTotal_def)

lemma replayedTotal_Cons:
  "replayedTotal (h # hs) pid = handDelta h pid + replayedTotal hs pid"
  using foldl_delta_shift [of pid "handDelta h pid" hs] by (simp add: replayedTotal_def)

lemma replayedTotal_snoc:
  "replayedTotal (hs @ [h]) pid = replayedTotal hs pid + handDelta h pid"
  by (simp add: replayedTotal_def)

lemma scoreHands_bump:
  "distinct (map p_id ps) \<Longrightarrow> map playerId ss = map p_id ps \<Longrightarrow>
   (\<forall>h \<in> set hs. bidderKnown ps h) \<Longrightarrow>
   scoreHands ps hs ss = Inr (bump (replayedTotal hs) ss)"
proof (induction hs arbitrary: ss)
  case Nil
  then show ?case by (simp add: bump_zero replayedTotal_Nil)
next
  case (Cons h hs)
  have a: "scoreHand ps h ss = Inr (bump (handDelta h) ss)"
    using Cons.prems by (intro scoreHand_bump) simp_all
  have b: "scoreHands ps hs (bump (handDelta h) ss)
             = Inr (bump (replayedTotal hs) (bump (handDelta h) ss))"
    using Cons.prems by (intro Cons.IH) simp_all
  show ?case
    using a b by (simp add: bump_bump replayedTotal_Cons)
qed

lemma recalculateScores_replay:
  assumes "wellFormed g" and "\<forall>h \<in> set (hands g). bidderKnown (players g) h"
  shows "recalculateScores g = Inr (g\<lparr> scores := replayedScores (hands g) (scores g) \<rparr>)"
proof -
  let ?ss0 = "map (\<lambda>s. s\<lparr> score := 0 \<rparr>) (scores g)"
  have d: "distinct (map p_id (players g))" using assms(1) by (simp add: wellFormed_def)
  have "map playerId ?ss0 = map p_id (players g)"
    using assms(1) by (simp add: wellFormed_def comp_def)
  then have "scoreHands (players g) (hands g) ?ss0 = Inr (bump (replayedTotal (hands g)) ?ss0)"
    using d assms(2) by (intro scoreHands_bump) simp_all
  moreover have "bump (replayedTotal (hands g)) ?ss0 = replayedScores (hands g) (scores g)"
    by (simp add: bump_def replayedScores_def comp_def)
  ultimately show ?thesis by (simp add: recalculateScores_def)
qed

lemma handDelta_cases:
  "(thrownIn h \<longrightarrow> handDelta h pid = 0)
   \<and> (\<not> thrownIn h \<and> isBidderSet h \<and> bidderId h = Some pid \<and> winningBid h = Some bid
        \<longrightarrow> handDelta h pid = - bid)
   \<and> (\<not> thrownIn h \<and> isBidderSet h \<and> bidderId h \<noteq> Some pid
        \<longrightarrow> handDelta h pid
            = or0 (map_of (playerMeld h) pid) + or0 (map_of (playerScores h) pid))
   \<and> (\<not> thrownIn h \<and> \<not> isBidderSet h
        \<longrightarrow> handDelta h pid
            = or0 (map_of (playerMeld h) pid) + or0 (map_of (playerScores h) pid))"
  by (simp add: handDelta_def getPlayerHandTotal_def)

lemma ex_game2_fields:
  "players ex_game2 = ex_players2" "hands ex_game2 = []"
  "scores ex_game2 = [\<lparr> playerId = ''p1'', name = ''A'', score = 0 \<rparr>,
                      \<lparr> playerId = ''p2'', name = ''B'', score = 0 \<rparr>]"
  "dealerIndex ex_game2 = Num 0" "targetScore ex_game2 = 1000"
  by (simp_all add: ex_game2_def newGame_def ex_players2_def)

lemma ex_isBidderSet: "isBidderSet ex_hand_set" "\<not> isBidderSet ex_hand_exact"
  by (simp_all add: isBidderSet_def truthy_str_def truthy_num_def or0_def
        ex_hand_set_fields ex_hand_exact_fields)

lemma ex_handDelta:
  "handDelta ex_hand_set ''p1'' = - 300" "handDelta ex_hand_set ''p2'' = 140"
  "handDelta ex_hand_thrown pid = 0"
  by (simp_all add: handDelta_def ex_isBidderSet ex_hand_set_fields getPlayerHandTotal_def
        or0_def ex_hand_thrown_def throwIn_def)

lemma ex_bidderKnown:
  "bidderKnown ex_players2 ex_hand_set" "bidderKnown ps ex_hand_thrown"
  by (simp_all add: bidderKnown_def ex_hand_set_fields ex_players2_def ex_hand_thrown_def
        throwIn_def)

text \<open>
  C1. For a well-formed session (score entries following the players, distinct player
  ids) whose hands have their bidder among the players, \<open>recalculateScores\<close> returns
  normally and replaces every entry's score by the fold of the hands from a zero
  baseline, each hand contributing \<open>handDelta\<close>: nothing when thrown in; when the bidder
  is set, minus the winning bid for the bidder and meld plus trick score for each other
  player; otherwise meld plus trick score for every player, missing entries counting 0.
  No other field changes.
\<close>

theorem recalculateScores_fold:
  "(wellFormed g \<and> (\<forall>h \<in> set (hands g). bidderKnown (players g) h) \<longrightarrow>
      recalculateScores g =
        Inr (g\<lparr> scores := map (\<lambda>s. s\<lparr> score := replayedTotal (hands g) (playerId s) \<rparr>)
                              (scores g) \<rparr>))
   \<and> replayedTotal [] pid = 0
   \<and> replayedTotal (hs @ [h]) pid = replayedTotal hs pid + handDelta h pid
   \<and> (thrownIn h \<longrightarrow> handDelta h pid = 0)
   \<and> (\<not> thrownIn h \<and> isBidderSet h \<and> bidderId h = Some pid \<and> winningBid h = Some bid
        \<longrightarrow> handDelta h pid = - bid)
   \<and> (\<not> thrownIn h \<and> isBidderSet h \<and> bidderId h \<noteq> Some pid
        \<longrightarrow> handDelta h pid
            = or0 (map_of (playerMeld h) pid) + or0 (map_of (playerScores h) pid))
   \<and> (\<not> thrownIn h \<and> \<not> isBidderSet h
        \<longrightarrow> handDelta h pid
            = or0 (map_of (playerMeld h) pid) + or0 (map_of (playerScores h) pid))"
proof -
  have "wellFormed g \<and> (\<forall>h \<in> set (hands g). bidderKnown (players g) h) \<longrightarrow>
      recalculateScores g =
        Inr (g\<lparr> scores := map (\<lambda>s. s\<lparr> score := replayedTotal (hands g) (playerId s) \<rparr>)
                              (scores g) \<rparr>)"
    using recalculateScores_replay [of g] by (simp add: replayedScores_def)
  then show ?thesis
    using handDelta_cases [of h pid bid]
    by (simp only: replayedTotal_Nil replayedTotal_snoc simp_thms)
qed

theorem recalculateScores_fold_witness:
  "recalculateScores (ex_game2\<lparr> hands := [ex_hand_thrown, ex_hand_set] \<rparr>) =
     Inr (ex_game2\<lparr> hands := [ex_hand_thrown, ex_hand_set],
                    scores := [\<lparr> playerId = ''p1'', name = ''A'', score = - 300 \<rparr>,
                               \<lparr> playerId = ''p2'', name = ''B'', score = 140 \<rparr>] \<rparr>)"
proof -
  let ?g = "ex_game2\<lparr> hands := [ex_hand_thrown, ex_hand_set] \<rparr>"
  have wf: "wellFormed ?g"
    by (simp add: wellFormed_def ex_game2_fields ex_players2_def)
  have known: "\<forall>h \<in> set (hands ?g). bidderKnown (players ?g) h"
    by (simp add: ex_game2_fields ex_bidderKnown)
  have tot: "replayedTotal [ex_hand_thrown, ex_hand_set] ''p1'' = - 300"
            "replayedTotal [ex_hand_thrown, ex_hand_set] ''p2'' = 140"
    by (simp_all add: replayedTotal_def ex_handDelta)
  show ?thesis
    using recalculateScores_fold [of ?g] wf known tot
    by (simp add: ex_game2_fields)
qed

section \<open>Adding a hand, ending a game\<close>

lemma js_rem_nonneg: "0 \<le> a \<Longrightarrow> 0 < b \<Longrightarrow> js_rem a b = Num (a mod b)"
  by (cases "a = 0") (simp_all add: js_rem_def sgn_if)

lemma advanceDealer_mod:
  "players g \<noteq> [] \<Longrightarrow> dealerIndex g = Num d \<Longrightarrow> 0 \<le> d \<Longrightarrow>
   advanceDealer g = g\<lparr> dealerIndex := Num ((d + 1) mod int (length (players g))) \<rparr>"
  by (simp add: advanceDealer_def js_rem_nonneg)

lemma replayedScores_snoc:
  "replayedScores (hs @ [h]) ss
     = map (\<lambda>s. s\<lparr> score := replayedTotal hs (playerId s) + handDelta h (playerId s) \<rparr>) ss"
  by (simp add: replayedScores_def replayedTotal_snoc)

text \<open>
  C6. On a well-formed session with at least one player and a dealer index \<open>d \<ge> 0\<close>,
  for every hand \<open>h\<close> (thrown in or not) whose bidder, like those of the earlier hands,
  is among the players: \<open>addHand(h)\<close> returns normally; it is \<open>recalculateScores\<close> run on
  the session with \<open>h\<close> appended to \<open>hands\<close>, followed by one \<open>advanceDealer\<close>; the
  resulting session has \<open>h\<close> as last hand, the scores replayed over all hands including
  \<open>h\<close>, the dealer index \<open>(d + 1) mod players.length\<close>, and every other field unchanged.
\<close>

theorem addHand_steps:
  "(\<forall>g'. addHand h g = Inr g' \<longrightarrow>
      (\<exists>g1. recalculateScores (g\<lparr> hands := hands g @ [h] \<rparr>) = Inr g1
            \<and> g' = advanceDealer g1 \<and> hands g' = hands g @ [h] \<and> scores g' = scores g1))
   \<and> (wellFormed g \<and> (\<forall>h' \<in> set (hands g @ [h]). bidderKnown (players g) h')
     \<and> players g \<noteq> [] \<and> dealerIndex g = Num d \<and> 0 \<le> d \<longrightarrow>
   recalculateScores (g\<lparr> hands := hands g @ [h] \<rparr>)
     = Inr (g\<lparr> hands := hands g @ [h],
               scores := replayedScores (hands g @ [h]) (scores g) \<rparr>)
   \<and> addHand h g
     = Inr (advanceDealer (g\<lparr> hands := hands g @ [h],
                              scores := replayedScores (hands g @ [h]) (scores g) \<rparr>))
   \<and> addHand h g
     = Inr (g\<lparr> hands := hands g @ [h],
               scores := map (\<lambda>s. s\<lparr> score := replayedTotal (hands g) (playerId s)
                                                + handDelta h (playerId s) \<rparr>) (scores g),
               dealerIndex := Num ((d + 1) mod int (length (players g))) \<rparr>))"
proof (rule conjI)
  show "\<forall>g'. addHand h g = Inr g' \<longrightarrow>
      (\<exists>g1. recalculateScores (g\<lparr> hands := hands g @ [h] \<rparr>) = Inr g1
            \<and> g' = advanceDealer g1 \<and> hands g' = hands g @ [h] \<and> scores g' = scores g1)"
    by (auto simp: addHand_def recalculateScores_def advanceDealer_def split: sum.splits)
next
  show "wellFormed g \<and> (\<forall>h' \<in> set (hands g @ [h]). bidderKnown (players g) h')
     \<and> players g \<noteq> [] \<and> dealerIndex g = Num d \<and> 0 \<le> d \<longrightarrow>
   recalculateScores (g\<lparr> hands := hands g @ [h] \<rparr>)
     = Inr (g\<lparr> hands := hands g @ [h],
               scores := replayedScores (hands g @ [h]) (scores g) \<rparr>)
   \<and> addHand h g
     = Inr (advanceDealer (g\<lparr> hands := hands g @ [h],
                              scores := replayedScores (hands g @ [h]) (scores g) \<rparr>))
   \<and> addHand h g
     = Inr (g\<lparr> hands := hands g @ [h],
               scores := map (\<lambda>s. s\<lparr> score := replayedTotal (hands g) (playerId s)
                                                + handDelta h (playerId s) \<rparr>) (scores g),
               dealerIndex := Num ((d + 1) mod int (length (players g))) \<rparr>)"
  proof (intro impI, elim conjE)
  assume wf: "wellFormed g"
    and known: "\<forall>h' \<in> set (hands g @ [h]). bidderKnown (players g) h'"
    and ne: "players g \<noteq> []" and di: "dealerIndex g = Num d" and d0: "0 \<le> d"
  let ?g1 = "g\<lparr> hands := hands g @ [h] \<rparr>"
  let ?g2 = "g\<lparr> hands := hands g @ [h], scores := replayedScores (hands g @ [h]) (scores g) \<rparr>"
  have wf1: "wellFormed ?g1" using wf by (simp add: wellFormed_def)
  have known1: "\<forall>h' \<in> set (hands ?g1). bidderKnown (players ?g1) h'" using known by simp
  have r: "recalculateScores ?g1 = Inr ?g2"
    using recalculateScores_replay [OF wf1 known1] by simp
  have a: "addHand h g = Inr (advanceDealer ?g2)"
    using r by (simp add: addHand_def)
  have "advanceDealer ?g2 = ?g2\<lparr> dealerIndex := Num ((d + 1) mod int (length (players ?g2))) \<rparr>"
    using ne di d0 by (intro advanceDealer_mod) simp_all
  then have b: "advanceDealer ?g2
    = g\<lparr> hands := hands g @ [h],
         scores := map (\<lambda>s. s\<lparr> score := replayedTotal (hands g) (playerId s)
                                          + handDelta h (playerId s) \<rparr>) (scores g),
         dealerIndex := Num ((d + 1) mod int (length (players g))) \<rparr>"
    by (simp add: replayedScores_snoc)
  show "recalculateScores ?g1 = Inr ?g2
    \<and> addHand h g = Inr (advanceDealer ?g2)
    \<and> addHand h g
     = Inr (g\<lparr> hands := hands g @ [h],
               scores := map (\<lambda>s. s\<lparr> score := replayedTotal (hands g) (playerId s)
                                                + handDelta h (playerId s) \<rparr>) (scores g),
               dealerIndex := Num ((d + 1) mod int (length (players g))) \<rparr>)"
    using r a b by simp
  qed
qed

theorem addHand_steps_witness:
  "addHand ex_hand_thrown ex_game2 =
     Inr (ex_game2\<lparr> hands := [ex_hand_thrown],
                    scores := [\<lparr> playerId = ''p1'', name = ''A'', score = 0 \<rparr>,
                               \<lparr> playerId = ''p2'', name = ''B'', score = 0 \<rparr>],
                    dealerIndex := Num 1 \<rparr>)
   \<and> addHand ex_hand_set
       (ex_game2\<lparr> hands := [ex_hand_thrown],
                  scores := [\<lparr> playerId = ''p1'', name = ''A'', score = 0 \<rparr>,
                             \<lparr> playerId = ''p2'', name = ''B'', score = 0 \<rparr>],
                  dealerIndex := Num 1 \<rparr>) =
     Inr (ex_game2\<lparr> hands := [ex_hand_thrown, ex_hand_set],
                    scores := [\<lparr> playerId = ''p1'', name = ''A'', score = - 300 \<rparr>,
                               \<lparr> playerId = ''p2'', name = ''B'', score = 140 \<rparr>],
                    dealerIndex := Num 0 \<rparr>)"
proof -
  let ?g1 = "ex_game2\<lparr> hands := [ex_hand_thrown],
                        scores := [\<lparr> playerId = ''p1'', name = ''A'', score = 0 \<rparr>,
                                   \<lparr> playerId = ''p2'', name = ''B'', score = 0 \<rparr>],
                        dealerIndex := Num 1 \<rparr>"
  have wf: "wellFormed ex_game2" "wellFormed ?g1"
    by (simp_all add: wellFormed_def ex_game2_fields ex_players2_def)
  have known: "\<forall>h' \<in> set (hands ex_game2 @ [ex_hand_thrown]). bidderKnown (players ex_game2) h'"
    "\<forall>h' \<in> set (hands ?g1 @ [ex_hand_set]). bidderKnown (players ?g1) h'"
    by (simp_all add: ex_game2_fields ex_bidderKnown)
  have ne: "players ex_game2 \<noteq> []" "players ?g1 \<noteq> []"
    by (simp_all add: ex_game2_fields ex_players2_def)
  have len: "length ex_players2 = 2"
    by (simp add: ex_players2_def)
  have tot: "replayedTotal [] ''p1'' = 0" "replayedTotal [] ''p2'' = 0"
    "replayedTotal [ex_hand_thrown] ''p1'' = 0" "replayedTotal [ex_hand_thrown] ''p2'' = 0"
    by (simp_all add: replayedTotal_def ex_handDelta)
  have h1: "wellFormed ex_game2
      \<and> (\<forall>h' \<in> set (hands ex_game2 @ [ex_hand_thrown]). bidderKnown (players ex_game2) h')
      \<and> players ex_game2 \<noteq> [] \<and> dealerIndex ex_game2 = Num 0 \<and> (0::int) \<le> 0"
    using wf(1) known(1) ne(1) by (simp add: ex_game2_fields)
  have h2: "wellFormed ?g1
      \<and> (\<forall>h' \<in> set (hands ?g1 @ [ex_hand_set]). bidderKnown (players ?g1) h')
      \<and> players ?g1 \<noteq> [] \<and> dealerIndex ?g1 = Num 1 \<and> (0::int) \<le> 1"
    using wf(2) known(2) ne(2) by simp
  have "addHand ex_hand_thrown ex_game2 = Inr ?g1"
    using addHand_steps [where g = ex_game2 and h = ex_hand_thrown and d = 0, THEN conjunct2, THEN mp, OF h1, THEN conjunct2,
        THEN conjunct2]
    by (simp add: ex_game2_fields len tot ex_handDelta)
  moreover have "addHand ex_hand_set ?g1 =
     Inr (ex_game2\<lparr> hands := [ex_hand_thrown, ex_hand_set],
                    scores := [\<lparr> playerId = ''p1'', name = ''A'', score = - 300 \<rparr>,
                               \<lparr> playerId = ''p2'', name = ''B'', score = 140 \<rparr>],
                    dealerIndex := Num 0 \<rparr>)"
    using addHand_steps [where g = ?g1 and h = ex_hand_set and d = 1, THEN conjunct2, THEN mp, OF h2, THEN conjunct2,
        THEN conjunct2]
    by (simp add: ex_game2_fields len tot ex_handDelta)
  ultimately show ?thesis by simp
qed

lemma recalculateScores_endGame:
  "recalculateScores (endGame now wId wName g) =
     (case recalculateScores g of Inl e \<Rightarrow> Inl e | Inr g' \<Rightarrow> Inr (endGame now wId wName g'))"
  by (simp add: recalculateScores_def endGame_def split: sum.splits)

lemma addHand_endGame:
  "addHand h (endGame now wId wName g)
     = (case addHand h g of Inl e \<Rightarrow> Inl e | Inr g' \<Rightarrow> Inr (endGame now wId wName g'))"
  by (simp add: addHand_def recalculateScores_def endGame_def advanceDealer_def
        split: sum.splits jsnum.splits)

text \<open>What \<open>addHand\<close> returns on a well-formed session, written out.\<close>

lemma addHand_explicit:
  assumes wf: "wellFormed g"
    and known: "\<forall>h' \<in> set (hands g @ [h]). bidderKnown (players g) h'"
    and ne: "players g \<noteq> []" and di: "dealerIndex g = Num d" and d0: "0 \<le> d"
  shows "addHand h g
     = Inr (g\<lparr> hands := hands g @ [h],
               scores := map (\<lambda>s. s\<lparr> score := replayedTotal (hands g) (playerId s)
                                                + handDelta h (playerId s) \<rparr>) (scores g),
               dealerIndex := Num ((d + 1) mod int (length (players g))) \<rparr>)"
proof -
  let ?g1 = "g\<lparr> hands := hands g @ [h] \<rparr>"
  let ?g2 = "g\<lparr> hands := hands g @ [h], scores := replayedScores (hands g @ [h]) (scores g) \<rparr>"
  have wf1: "wellFormed ?g1" using wf by (simp add: wellFormed_def)
  have known1: "\<forall>h' \<in> set (hands ?g1). bidderKnown (players ?g1) h'" using known by simp
  have "recalculateScores ?g1 = Inr ?g2"
    using recalculateScores_replay [OF wf1 known1] by simp
  then have a: "addHand h g = Inr (advanceDealer ?g2)" by (simp add: addHand_def)
  have "advanceDealer ?g2 = ?g2\<lparr> dealerIndex := Num ((d + 1) mod int (length (players ?g2))) \<rparr>"
    using ne di d0 by (intro advanceDealer_mod) simp_all
  then show ?thesis using a by (simp add: replayedScores_snoc)
qed

text \<open>
  C10. \<open>endGame(winnerId, winnerName)\<close> writes \<open>endTime\<close>, \<open>winnerId\<close> and \<open>winnerName\<close> and
  nothing else, and no operation looks at them. \<open>addHand(h)\<close> on an ended session does
  what it does on the same session not ended: the same error, or the same session
  still carrying the three end fields. On a well-formed ended session (at least one
  player, dealer index \<open>d \<ge> 0\<close>, bidders among the players) it returns the session with
  \<open>h\<close> appended to \<open>hands\<close>, every score replayed over all hands including \<open>h\<close>, and the
  dealer index \<open>(d + 1) mod players.length\<close>. A second \<open>endGame\<close> overwrites the three
  fields.
\<close>

theorem endGame_frame:
  "endGame now wId wName g
     = g\<lparr> endTime := Some now, winnerId := Some wId, winnerName := Some wName \<rparr>
   \<and> game_id (endGame now wId wName g) = game_id g
   \<and> gameType (endGame now wId wName g) = gameType g
   \<and> players (endGame now wId wName g) = players g
   \<and> hands (endGame now wId wName g) = hands g
   \<and> scores (endGame now wId wName g) = scores g
   \<and> startTime (endGame now wId wName g) = startTime g
   \<and> targetScore (endGame now wId wName g) = targetScore g
   \<and> dealerIndex (endGame now wId wName g) = dealerIndex g
   \<and> teamAssignments (endGame now wId wName g) = teamAssignments g
   \<and> addHand h (endGame now wId wName g)
       = (case addHand h g of Inl e \<Rightarrow> Inl e | Inr g' \<Rightarrow> Inr (endGame now wId wName g'))
   \<and> endGame now2 wId2 wName2 (endGame now wId wName g) = endGame now2 wId2 wName2 g
   \<and> endTime (endGame now2 wId2 wName2 (endGame now wId wName g)) = Some now2
   \<and> winnerId (endGame now2 wId2 wName2 (endGame now wId wName g)) = Some wId2
   \<and> winnerName (endGame now2 wId2 wName2 (endGame now wId wName g)) = Some wName2
   \<and> (wellFormed g \<and> (\<forall>h' \<in> set (hands g @ [h]). bidderKnown (players g) h')
        \<and> players g \<noteq> [] \<and> dealerIndex g = Num d \<and> 0 \<le> d \<longrightarrow>
        addHand h (endGame now wId wName g)
          = Inr (g\<lparr> hands := hands g @ [h],
                    scores := map (\<lambda>s. s\<lparr> score := replayedTotal (hands g) (playerId s)
                                                     + handDelta h (playerId s) \<rparr>) (scores g),
                    dealerIndex := Num ((d + 1) mod int (length (players g))),
                    endTime := Some now, winnerId := Some wId, winnerName := Some wName \<rparr>))"
proof -
  have "wellFormed g \<and> (\<forall>h' \<in> set (hands g @ [h]). bidderKnown (players g) h')
        \<and> players g \<noteq> [] \<and> dealerIndex g = Num d \<and> 0 \<le> d \<longrightarrow>
        addHand h (endGame now wId wName g)
          = Inr (g\<lparr> hands := hands g @ [h],
                    scores := map (\<lambda>s. s\<lparr> score := replayedTotal (hands g) (playerId s)
                                                     + handDelta h (playerId s) \<rparr>) (scores g),
                    dealerIndex := Num ((d + 1) mod int (length (players g))),
                    endTime := Some now, winnerId := Some wId, winnerName := Some wName \<rparr>)"
  proof (intro impI, elim conjE)
    assume wf: "wellFormed g"
      and known: "\<forall>h' \<in> set (hands g @ [h]). bidderKnown (players g) h'"
      and ne: "players g \<noteq> []" and di: "dealerIndex g = Num d" and d0: "0 \<le> d"
    show "addHand h (endGame now wId wName g)
          = Inr (g\<lparr> hands := hands g @ [h],
                    scores := map (\<lambda>s. s\<lparr> score := replayedTotal (hands g) (playerId s)
                                                     + handDelta h (playerId s) \<rparr>) (scores g),
                    dealerIndex := Num ((d + 1) mod int (length (players g))),
                    endTime := Some now, winnerId := Some wId, winnerName := Some wName \<rparr>)"
      unfolding addHand_endGame addHand_explicit [OF wf known ne di d0]
      by (simp add: endGame_def)
  qed
  then show ?thesis by (simp add: addHand_endGame) (simp add: endGame_def)
qed

theorem endGame_frame_witness:
  "addHand ex_hand_set (endGame ''t9'' ''p2'' ''B'' ex_game2) =
     Inr (ex_game2\<lparr> hands := [ex_hand_set],
                    scores := [\<lparr> playerId = ''p1'', name = ''A'', score = - 300 \<rparr>,
                               \<lparr> playerId = ''p2'', name = ''B'', score = 140 \<rparr>],
                    dealerIndex := Num 1,
                    endTime := Some ''t9'', winnerId := Some ''p2'', winnerName := Some ''B'' \<rparr>)"
proof -
  have wf: "wellFormed ex_game2" "players ex_game2 \<noteq> []"
    by (simp_all add: wellFormed_def ex_game2_fields ex_players2_def)
  have hyp: "wellFormed ex_game2
      \<and> (\<forall>h' \<in> set (hands ex_game2 @ [ex_hand_set]). bidderKnown (players ex_game2) h')
      \<and> players ex_game2 \<noteq> [] \<and> dealerIndex ex_game2 = Num 0 \<and> (0::int) \<le> 0"
    using wf by (simp add: ex_game2_fields ex_bidderKnown)
  have len: "length ex_players2 = 2" by (simp add: ex_players2_def)
  have tot: "replayedTotal [] ''p1'' = 0" "replayedTotal [] ''p2'' = 0"
    by (simp_all add: replayedTotal_def)
  have last: "wellFormed ex_game2
      \<and> (\<forall>h' \<in> set (hands ex_game2 @ [ex_hand_set]). bidderKnown (players ex_game2) h')
      \<and> players ex_game2 \<noteq> [] \<and> dealerIndex ex_game2 = Num 0 \<and> (0::int) \<le> 0 \<longrightarrow>
      addHand ex_hand_set (endGame ''t9'' ''p2'' ''B'' ex_game2)
        = Inr (ex_game2\<lparr> hands := hands ex_game2 @ [ex_hand_set],
             scores := map (\<lambda>s. s\<lparr> score := replayedTotal (hands ex_game2) (playerId s)
                                              + handDelta ex_hand_set (playerId s) \<rparr>)
                         (scores ex_game2),
             dealerIndex := Num ((0 + 1) mod int (length (players ex_game2))),
             endTime := Some ''t9'', winnerId := Some ''p2'', winnerName := Some ''B'' \<rparr>)"
    using endGame_frame [where g = ex_game2 and h = ex_hand_set and d = 0
        and now = "''t9''" and wId = "''p2''" and wName = "''B''"]
    by blast
  show ?thesis
    using last [THEN mp, OF hyp] by (simp add: ex_game2_fields len tot ex_handDelta)
qed

section \<open>Sequences of session operations\<close>

lemma addToScore_reset:
  "addToScore k d ss = Inr ss' \<Longrightarrow>
   map (\<lambda>s. s\<lparr> score := 0 \<rparr>) ss' = map (\<lambda>s. s\<lparr> score := 0 \<rparr>) ss"
  by (induction ss arbitrary: ss') (auto split: if_splits sum.splits)

lemma scoreAll_reset:
  "scoreAll h ps ss = Inr ss' \<Longrightarrow>
   map (\<lambda>s. s\<lparr> score := 0 \<rparr>) ss' = map (\<lambda>s. s\<lparr> score := 0 \<rparr>) ss"
proof (induction ps arbitrary: ss)
  case Nil
  then show ?case by simp
next
  case (Cons p ps)
  from Cons.prems obtain ss1 where
    a: "addToScore (Some (p_id p)) (getPlayerHandTotal h (p_id p)) ss = Inr ss1"
    and b: "scoreAll h ps ss1 = Inr ss'"
    by (auto simp: Let_def getPlayerHandTotal_def split: sum.splits)
  from Cons.IH [OF b] addToScore_reset [OF a] show ?case by simp
qed

lemma scoreOthers_reset:
  "scoreOthers h ps ss = Inr ss' \<Longrightarrow>
   map (\<lambda>s. s\<lparr> score := 0 \<rparr>) ss' = map (\<lambda>s. s\<lparr> score := 0 \<rparr>) ss"
proof (induction ps arbitrary: ss)
  case Nil
  then show ?case by simp
next
  case (Cons p ps)
  show ?case
  proof (cases "Some (p_id p) \<noteq> bidderId h")
    case True
    with Cons.prems obtain ss1 where
      a: "addToScore (Some (p_id p)) (getPlayerHandTotal h (p_id p)) ss = Inr ss1"
      and b: "scoreOthers h ps ss1 = Inr ss'"
      by (auto simp: Let_def getPlayerHandTotal_def split: sum.splits)
    from Cons.IH [OF b] addToScore_reset [OF a] show ?thesis by simp
  next
    case False
    with Cons.prems have "scoreOthers h ps ss = Inr ss'" by simp
    then show ?thesis by (rule Cons.IH)
  qed
qed

lemma scoreHand_reset:
  assumes "scoreHand ps h ss = Inr ss'"
  shows "map (\<lambda>s. s\<lparr> score := 0 \<rparr>) ss' = map (\<lambda>s. s\<lparr> score := 0 \<rparr>) ss"
proof (cases "thrownIn h")
  case True
  with assms show ?thesis by (simp add: scoreHand_def)
next
  case notThrown: False
  show ?thesis
  proof (cases "isBidderSet h")
    case True
    with notThrown assms obtain ss1 where
      a: "addToScore (bidderId h) (- to_number (winningBid h)) ss = Inr ss1"
      and b: "scoreOthers h ps ss1 = Inr ss'"
      by (auto simp: scoreHand_def split: sum.splits)
    from scoreOthers_reset [OF b] addToScore_reset [OF a] show ?thesis by simp
  next
    case False
    with notThrown assms have "scoreAll h ps ss = Inr ss'" by (simp add: scoreHand_def)
    then show ?thesis by (rule scoreAll_reset)
  qed
qed

lemma scoreHands_reset:
  "scoreHands ps hs ss = Inr ss' \<Longrightarrow>
   map (\<lambda>s. s\<lparr> score := 0 \<rparr>) ss' = map (\<lambda>s. s\<lparr> score := 0 \<rparr>) ss"
proof (induction hs arbitrary: ss)
  case Nil
  then show ?case by simp
next
  case (Cons h hs)
  from Cons.prems obtain ss1 where
    a: "scoreHand ps h ss = Inr ss1" and b: "scoreHands ps hs ss1 = Inr ss'"
    by (auto split: sum.splits)
  from Cons.IH [OF b] scoreHand_reset [OF a] show ?case by simp
qed

text \<open>Running the engine on its own result changes nothing.\<close>

lemma recalculateScores_idem:
  assumes "recalculateScores g = Inr g'"
  shows "recalculateScores g' = Inr g'"
proof -
  from assms obtain ss where
    a: "scoreHands (players g) (hands g) (map (\<lambda>s. s\<lparr> score := 0 \<rparr>) (scores g)) = Inr ss"
    and g': "g' = g\<lparr> scores := ss \<rparr>"
    by (auto simp: recalculateScores_def split: sum.splits)
  have "map (\<lambda>s. s\<lparr> score := 0 \<rparr>) ss = map (\<lambda>s. s\<lparr> score := 0 \<rparr>) (scores g)"
    using scoreHands_reset [OF a] by (simp add: comp_def)
  then show ?thesis using a g' by (simp add: recalculateScores_def)
qed

lemma recalculateScores_advanceDealer:
  "recalculateScores (advanceDealer g) =
     (case recalculateScores g of Inl e \<Rightarrow> Inl e | Inr g' \<Rightarrow> Inr (advanceDealer g'))"
  by (simp add: recalculateScores_def advanceDealer_def split: sum.splits jsnum.splits)

lemma recalculateScores_teamAssignments:
  "recalculateScores (g\<lparr> teamAssignments := t \<rparr>) =
     (case recalculateScores g of Inl e \<Rightarrow> Inl e | Inr g' \<Rightarrow> Inr (g'\<lparr> teamAssignments := t \<rparr>))"
  by (simp add: recalculateScores_def split: sum.splits)

lemma hand_fromData_toData: "GameHand_fromData now (GameHand_toData h) = h"
  by (simp add: GameHand_fromData_def GameHand_toData_def newGameHand_def)

lemma recalculateScores_newGame:
  "recalculateScores (newGame nowMs nowIso ps gt) = Inr (newGame nowMs nowIso ps gt)"
  by (simp add: recalculateScores_def newGame_def comp_def)

lemma addHand_keeps_replay:
  assumes "addHand h g = Inr g'"
  shows "recalculateScores g' = Inr g'"
proof -
  from assms obtain g1 where
    a: "recalculateScores (g\<lparr> hands := hands g @ [h] \<rparr>) = Inr g1"
    and g': "g' = advanceDealer g1"
    by (auto simp: addHand_def split: sum.splits)
  have "recalculateScores g1 = Inr g1" using a by (rule recalculateScores_idem)
  then show ?thesis using g' by (simp add: recalculateScores_advanceDealer)
qed

lemma reset_ids:
  assumes "map (\<lambda>s. s\<lparr> score := 0 \<rparr>) ss' = map (\<lambda>s. s\<lparr> score := 0 \<rparr>) ss"
  shows "map playerId ss' = map playerId ss"
proof -
  have "map playerId (map (\<lambda>s. s\<lparr> score := 0 \<rparr>) ss')
          = map playerId (map (\<lambda>s. s\<lparr> score := 0 \<rparr>) ss)"
    using assms by simp
  then show ?thesis by (simp add: comp_def)
qed

lemma replayedScores_reset:
  "replayedScores hs ss = replayedScores hs (map (\<lambda>s. s\<lparr> score := 0 \<rparr>) ss)"
  by (simp add: replayedScores_def comp_def)

lemma replayedScores_resets [simp]:
  "map (\<lambda>s. s\<lparr> score := 0 \<rparr>) (replayedScores hs ss) = map (\<lambda>s. s\<lparr> score := 0 \<rparr>) ss"
  by (simp add: replayedScores_def comp_def)

lemma addedHands_Cons: "addedHands (x # xs) = addedHands [x] @ addedHands xs"
  by (cases x) simp_all

lemma replayedScores_newGame:
  "replayedScores hs (scores (newGame nowMs nowIso ps gt))
     = map (\<lambda>p. \<lparr> playerId = p_id p, name = p_name p, score = replayedTotal hs (p_id p) \<rparr>) ps"
  by (simp add: replayedScores_def newGame_def comp_def)

subsection \<open>Objects and the store\<close>

lemma deref_fields [simp]:
  "players (deref S ob) = players ob" "hands (deref S ob) = hands ob"
  "scores (deref S ob) = cells S (scores ob)"
  by (simp_all add: deref_def)

lemma deref_objectOf:
  "deref (S\<lparr> cells := (cells S)(a := scores g) \<rparr>) (objectOf g a) = g"
  by (simp add: deref_def objectOf_def)

lemma call_Inr:
  assumes "call m ob S = Inr (ob', S')"
  shows "m (deref S ob) = Inr (deref S' ob') \<and> scores ob' = scores ob \<and> fresh S' = fresh S"
proof -
  from assms obtain g where
    g: "m (deref S ob) = Inr g" and ob': "ob' = objectOf g (scores ob)"
    and S': "S' = S\<lparr> cells := (cells S)(scores ob := scores g) \<rparr>"
    by (auto simp: call_def split: sum.splits)
  have "deref S' ob' = g" unfolding ob' S' by (rule deref_objectOf)
  then show ?thesis using g ob' S' by (simp add: objectOf_def)
qed

lemma call_ok:
  assumes "m (deref S ob) = Inr g"
  shows "\<exists>ob' S'. call m ob S = Inr (ob', S') \<and> deref S' ob' = g
           \<and> scores ob' = scores ob \<and> fresh S' = fresh S"
proof -
  have "call m ob S = Inr (objectOf g (scores ob),
                           S\<lparr> cells := (cells S)(scores ob := scores g) \<rparr>)"
    using assms by (simp add: call_def)
  moreover have "deref (S\<lparr> cells := (cells S)(scores ob := scores g) \<rparr>)
                   (objectOf g (scores ob)) = g"
    by (rule deref_objectOf)
  ultimately show ?thesis by (simp add: objectOf_def)
qed

lemma newGameAt_eq:
  "newGameAt nowMs nowIso ps gt S =
     (objectOf (newGame nowMs nowIso ps gt) (fresh S),
      S\<lparr> cells := (cells S)(fresh S := scores (newGame nowMs nowIso ps gt)),
         fresh := fresh S + 1 \<rparr>)"
  by (simp add: newGameAt_def alloc_def Let_def)

lemma newGameAt_deref:
  assumes "newGameAt nowMs nowIso ps gt S0 = (ob, S)"
  shows "deref S ob = newGame nowMs nowIso ps gt \<and> scores ob < fresh S"
  using assms by (auto simp: newGameAt_eq deref_def objectOf_def)

text \<open>
  The round trip gives an object with the stored fields of the first one, without the
  \<open>teamAssignments\<close> property, and with the very same scores array; the array that the
  constructor built inside \<open>fromData\<close> stays behind unused.
\<close>

lemma Game_fromData_toData:
  "Game_fromData nowMs nowIso (Game_toData ob) S =
     (ob\<lparr> teamAssignments := None \<rparr>,
      S\<lparr> cells := (cells S)(fresh S := scores (newGame nowMs nowIso (players ob) (gameType ob))),
         fresh := fresh S + 1 \<rparr>)"
  by (simp add: Game_fromData_def Game_toData_def newGameAt_eq objectOf_def newGame_def
        comp_def hand_fromData_toData)

lemma roundTrip_deref:
  assumes "Game_fromData nowMs nowIso (Game_toData ob) S = (ob', S')"
    and "scores ob < fresh S"
  shows "deref S' ob' = (deref S ob)\<lparr> teamAssignments := None \<rparr>
           \<and> scores ob' = scores ob \<and> fresh S' = fresh S + 1"
  using assms by (auto simp: Game_fromData_toData deref_def)

lemma run_op_keeps_replay:
  assumes inv: "recalculateScores (deref S ob) = Inr (deref S ob)"
    and al: "scores ob < fresh S"
    and step: "run_op x (ob, S) = Inr (ob', S')"
  shows "recalculateScores (deref S' ob') = Inr (deref S' ob') \<and> scores ob' < fresh S'"
proof (cases x)
  case (AddHand h)
  with step have "call (addHand h) ob S = Inr (ob', S')" by simp
  from call_Inr [OF this] addHand_keeps_replay al show ?thesis by auto
next
  case RecalculateScores
  with step have "call recalculateScores ob S = Inr (ob', S')" by simp
  from call_Inr [OF this] recalculateScores_idem al show ?thesis by auto
next
  case (EndGame now wId wName)
  with step have "call (\<lambda>g. Inr (endGame now wId wName g)) ob S = Inr (ob', S')" by simp
  from call_Inr [OF this] have "deref S' ob' = endGame now wId wName (deref S ob)"
    and "scores ob' = scores ob" and "fresh S' = fresh S" by simp_all
  then show ?thesis using inv al by (simp add: recalculateScores_endGame)
next
  case AdvanceDealer
  with step have "call (\<lambda>g. Inr (advanceDealer g)) ob S = Inr (ob', S')" by simp
  from call_Inr [OF this] have "deref S' ob' = advanceDealer (deref S ob)"
    and "scores ob' = scores ob" and "fresh S' = fresh S" by simp_all
  then show ?thesis using inv al by (simp add: recalculateScores_advanceDealer)
next
  case (RoundTrip nowMs nowIso)
  with step have "Game_fromData nowMs nowIso (Game_toData ob) S = (ob', S')" by simp
  from roundTrip_deref [OF this al] show ?thesis
    using inv al by (simp add: recalculateScores_teamAssignments)
qed

lemma run_ops_keeps_replay:
  "recalculateScores (deref S ob) = Inr (deref S ob) \<Longrightarrow> scores ob < fresh S \<Longrightarrow>
   run_ops xs (ob, S) = Inr (ob', S') \<Longrightarrow>
   recalculateScores (deref S' ob') = Inr (deref S' ob')"
proof (induction xs arbitrary: ob S)
  case Nil
  then show ?case by simp
next
  case (Cons x xs)
  from Cons.prems(3) obtain ob1 S1 where
    a: "run_op x (ob, S) = Inr (ob1, S1)" and b: "run_ops xs (ob1, S1) = Inr (ob', S')"
    by (auto split: sum.splits)
  from run_op_keeps_replay [OF Cons.prems(1,2) a]
  have "recalculateScores (deref S1 ob1) = Inr (deref S1 ob1)" "scores ob1 < fresh S1"
    by simp_all
  then show ?case using b by (rule Cons.IH)
qed

lemma run_op_total:
  assumes wf: "wellFormed (deref S ob)" and al: "scores ob < fresh S"
    and known: "\<forall>h \<in> set (hands ob @ addedHands [x]). bidderKnown (players ob) h"
  shows "\<exists>ob' S'. run_op x (ob, S) = Inr (ob', S') \<and> players ob' = players ob
           \<and> hands ob' = hands ob @ addedHands [x] \<and> scores ob' < fresh S'
           \<and> map (\<lambda>s. s\<lparr> score := 0 \<rparr>) (cells S' (scores ob'))
               = map (\<lambda>s. s\<lparr> score := 0 \<rparr>) (cells S (scores ob))"
proof -
  let ?g = "deref S ob"
  have step: "\<exists>ob' S'. call m ob S = Inr (ob', S') \<and> players ob' = players ob
           \<and> hands ob' = hands ob @ addedHands [x] \<and> scores ob' < fresh S'
           \<and> map (\<lambda>s. s\<lparr> score := 0 \<rparr>) (cells S' (scores ob'))
               = map (\<lambda>s. s\<lparr> score := 0 \<rparr>) (cells S (scores ob))"
    if m: "m ?g = Inr g'" and p: "players g' = players ?g"
      and hs: "hands g' = hands ?g @ addedHands [x]"
      and r: "map (\<lambda>s. s\<lparr> score := 0 \<rparr>) (scores g') = map (\<lambda>s. s\<lparr> score := 0 \<rparr>) (scores ?g)"
    for m g'
  proof -
    from call_ok [of m S ob g', OF m] obtain ob' S' where
      c: "call m ob S = Inr (ob', S')" and d: "deref S' ob' = g'"
      and s: "scores ob' = scores ob" and f: "fresh S' = fresh S"
      by blast
    have "players ob' = players g'" "hands ob' = hands g'" "cells S' (scores ob') = scores g'"
      using arg_cong [OF d, of players] arg_cong [OF d, of hands] arg_cong [OF d, of scores]
      by simp_all
    then show ?thesis using c p hs r s f al by auto
  qed
  show ?thesis
  proof (cases x)
    case (AddHand h)
    let ?g1 = "?g\<lparr> hands := hands ?g @ [h] \<rparr>"
    have "wellFormed ?g1" using wf by (simp add: wellFormed_def)
    moreover have "\<forall>h' \<in> set (hands ?g1). bidderKnown (players ?g1) h'"
      using known AddHand by simp
    ultimately have "recalculateScores ?g1
        = Inr (?g1\<lparr> scores := replayedScores (hands ?g1) (scores ?g1) \<rparr>)"
      by (rule recalculateScores_replay)
    then have "addHand h ?g
        = Inr (advanceDealer (?g1\<lparr> scores := replayedScores (hands ?g1) (scores ?g1) \<rparr>))"
      by (simp add: addHand_def)
    from step [of "addHand h", OF this] show ?thesis
      using AddHand by (simp add: advanceDealer_def)
  next
    case RecalculateScores
    have "\<forall>h \<in> set (hands ?g). bidderKnown (players ?g) h" using known by simp
    with wf have "recalculateScores ?g
        = Inr (?g\<lparr> scores := replayedScores (hands ?g) (scores ?g) \<rparr>)"
      by (rule recalculateScores_replay)
    from step [of recalculateScores, OF this] show ?thesis using RecalculateScores by simp
  next
    case (EndGame now wId wName)
    have "(\<lambda>g. Inr (endGame now wId wName g)) ?g = Inr (endGame now wId wName ?g)" by simp
    from step [of "\<lambda>g. Inr (endGame now wId wName g)", OF this] show ?thesis
      using EndGame by (simp add: endGame_def)
  next
    case AdvanceDealer
    have "(\<lambda>g. Inr (advanceDealer g)) ?g = Inr (advanceDealer ?g)" by simp
    from step [of "\<lambda>g. Inr (advanceDealer g)", OF this] show ?thesis
      using AdvanceDealer by (simp add: advanceDealer_def)
  next
    case (RoundTrip nowMs nowIso)
    then show ?thesis using al by (simp add: Game_fromData_toData)
  qed
qed

lemma run_ops_total:
  "wellFormed (deref S ob) \<Longrightarrow> scores ob < fresh S \<Longrightarrow>
   \<forall>h \<in> set (hands ob @ addedHands xs). bidderKnown (players ob) h \<Longrightarrow>
   \<exists>ob' S'. run_ops xs (ob, S) = Inr (ob', S') \<and> players ob' = players ob
         \<and> hands ob' = hands ob @ addedHands xs
         \<and> map (\<lambda>s. s\<lparr> score := 0 \<rparr>) (cells S' (scores ob'))
             = map (\<lambda>s. s\<lparr> score := 0 \<rparr>) (cells S (scores ob))"
proof (induction xs arbitrary: ob S)
  case Nil
  then show ?case by simp
next
  case (Cons x xs)
  have sp: "addedHands (x # xs) = addedHands [x] @ addedHands xs" by (rule addedHands_Cons)
  have "\<forall>h \<in> set (hands ob @ addedHands [x]). bidderKnown (players ob) h"
    using Cons.prems(3) unfolding sp by auto
  from run_op_total [OF Cons.prems(1,2) this] obtain ob1 S1 where
    a: "run_op x (ob, S) = Inr (ob1, S1)" and p: "players ob1 = players ob"
    and hs: "hands ob1 = hands ob @ addedHands [x]" and al1: "scores ob1 < fresh S1"
    and r: "map (\<lambda>s. s\<lparr> score := 0 \<rparr>) (cells S1 (scores ob1))
              = map (\<lambda>s. s\<lparr> score := 0 \<rparr>) (cells S (scores ob))"
    by blast
  have wf1: "wellFormed (deref S1 ob1)"
    using Cons.prems(1) p reset_ids [OF r] by (simp add: wellFormed_def)
  have known1: "\<forall>h \<in> set (hands ob1 @ addedHands xs). bidderKnown (players ob1) h"
    using Cons.prems(3) p hs unfolding sp by auto
  from Cons.IH [OF wf1 al1 known1] obtain ob' S' where
    b: "run_ops xs (ob1, S1) = Inr (ob', S')" and p': "players ob' = players ob1"
    and hs': "hands ob' = hands ob1 @ addedHands xs"
    and r': "map (\<lambda>s. s\<lparr> score := 0 \<rparr>) (cells S' (scores ob'))
               = map (\<lambda>s. s\<lparr> score := 0 \<rparr>) (cells S1 (scores ob1))"
    by blast
  show ?case using a b p p' hs hs' r r' unfolding sp by simp
qed

lemma run_ops_newGameAt:
  assumes d: "distinct (map p_id ps)" and known: "\<forall>h \<in> set (addedHands xs). bidderKnown ps h"
  shows "\<exists>ob S. run_ops xs (newGameAt nowMs nowIso ps gt S0) = Inr (ob, S) \<and> players ob = ps
           \<and> hands ob = addedHands xs
           \<and> cells S (scores ob)
               = map (\<lambda>p. \<lparr> playerId = p_id p, name = p_name p,
                            score = replayedTotal (addedHands xs) (p_id p) \<rparr>) ps"
proof -
  let ?fresh_game = "newGame nowMs nowIso ps gt"
  obtain ob0 S1 where n: "newGameAt nowMs nowIso ps gt S0 = (ob0, S1)" by (cases "newGameAt nowMs nowIso ps gt S0")
  from newGameAt_deref [OF n] have d0: "deref S1 ob0 = ?fresh_game" and al0: "scores ob0 < fresh S1"
    by simp_all
  have p0: "players ob0 = ps"
    using arg_cong [OF d0, of players] by (simp add: newGame_def)
  have h0: "hands ob0 = []"
    using arg_cong [OF d0, of hands] by (simp add: newGame_def)
  have c0: "cells S1 (scores ob0) = scores ?fresh_game"
    using arg_cong [OF d0, of scores] by simp
  have wf0: "wellFormed (deref S1 ob0)"
    unfolding d0 using d by (simp add: wellFormed_def newGame_def comp_def)
  have known0: "\<forall>h \<in> set (hands ob0 @ addedHands xs). bidderKnown (players ob0) h"
    using known p0 h0 by simp
  from run_ops_total [OF wf0 al0 known0] obtain ob S where
    a: "run_ops xs (ob0, S1) = Inr (ob, S)" and p: "players ob = players ob0"
    and hs: "hands ob = hands ob0 @ addedHands xs"
    and r: "map (\<lambda>s. s\<lparr> score := 0 \<rparr>) (cells S (scores ob))
              = map (\<lambda>s. s\<lparr> score := 0 \<rparr>) (cells S1 (scores ob0))"
    by blast
  let ?g = "deref S ob"
  have p': "players ?g = ps" and hs': "hands ?g = addedHands xs"
    using p hs p0 h0 by simp_all
  have wf: "wellFormed ?g"
    using d p' reset_ids [OF r] c0 by (simp add: wellFormed_def newGame_def comp_def)
  have known': "\<forall>h \<in> set (hands ?g). bidderKnown (players ?g) h"
    using known p' hs' by simp
  have inv0: "recalculateScores (deref S1 ob0) = Inr (deref S1 ob0)"
    unfolding d0 by (rule recalculateScores_newGame)
  have "recalculateScores ?g = Inr ?g"
    using inv0 al0 a by (rule run_ops_keeps_replay)
  moreover have "recalculateScores ?g = Inr (?g\<lparr> scores := replayedScores (hands ?g) (scores ?g) \<rparr>)"
    using wf known' by (rule recalculateScores_replay)
  ultimately have "?g\<lparr> scores := replayedScores (hands ?g) (scores ?g) \<rparr> = ?g" by simp
  then have "scores (?g\<lparr> scores := replayedScores (hands ?g) (scores ?g) \<rparr>) = scores ?g"
    by simp
  then have "scores ?g = replayedScores (hands ?g) (scores ?g)" by simp
  also have "\<dots> = replayedScores (hands ?g) (map (\<lambda>s. s\<lparr> score := 0 \<rparr>) (scores ?g))"
    by (rule replayedScores_reset)
  also have "\<dots> = replayedScores (hands ?g) (map (\<lambda>s. s\<lparr> score := 0 \<rparr>) (scores ?fresh_game))"
    using r c0 by simp
  also have "\<dots> = replayedScores (hands ?g) (scores ?fresh_game)"
    by (rule replayedScores_reset [symmetric])
  finally have "cells S (scores ob) = map (\<lambda>p. \<lparr> playerId = p_id p, name = p_name p,
                                     score = replayedTotal (addedHands xs) (p_id p) \<rparr>) ps"
    using hs' by (simp add: replayedScores_newGame)
  with a n p p0 hs h0 show ?thesis by simp
qed

lemma ex_game2_is_new: "newGame ''1700000000000'' ''t0'' ex_players2 2 = ex_game2"
  by (simp add: ex_game2_def)

lemma ex_first_eq:
  "ex_first = (objectOf ex_game2 0,
               \<lparr> cells = (\<lambda>a. [])(0 := scores ex_game2), fresh = 1 \<rparr>)"
  by (simp add: ex_first_def newGameAt_eq ex_game2_is_new emptyStore_def)

lemma ex_restored_eq:
  "ex_restored = (objectOf ex_game2 0,
                  \<lparr> cells = (\<lambda>a. [])(0 := scores ex_game2, 1 := scores ex_game2), fresh = 2 \<rparr>)"
proof -
  have "newGame ''1700000000001'' ''t10'' ex_players2 2 = ex_game2\<lparr> game_id := ''1700000000001'', startTime := ''t10'' \<rparr>"
    by (simp add: ex_game2_def newGame_def)
  then show ?thesis
    by (simp add: ex_restored_def ex_first_eq Game_fromData_toData objectOf_def
          ex_game2_fields) (simp add: ex_game2_def newGame_def ex_players2_def)
qed

lemma ex_addHand_set:
  "addHand ex_hand_set ex_game2 =
     Inr (ex_game2\<lparr> hands := [ex_hand_set],
                    scores := [\<lparr> playerId = ''p1'', name = ''A'', score = - 300 \<rparr>,
                               \<lparr> playerId = ''p2'', name = ''B'', score = 140 \<rparr>],
                    dealerIndex := Num 1 \<rparr>)"
proof -
  have wf: "wellFormed ex_game2" "players ex_game2 \<noteq> []"
    by (simp_all add: wellFormed_def ex_game2_fields ex_players2_def)
  have known: "\<forall>h' \<in> set (hands ex_game2 @ [ex_hand_set]). bidderKnown (players ex_game2) h'"
    by (simp add: ex_game2_fields ex_bidderKnown)
  have di: "dealerIndex ex_game2 = Num 0" by (simp add: ex_game2_fields)
  have len: "length ex_players2 = 2" by (simp add: ex_players2_def)
  have tot: "replayedTotal [] ''p1'' = 0" "replayedTotal [] ''p2'' = 0"
    by (simp_all add: replayedTotal_def)
  show ?thesis
    using addHand_explicit [OF wf(1) known wf(2) di]
    by (simp add: ex_game2_fields len tot ex_handDelta)
qed

lemma ex_second_eq:
  "isl ex_after = False"
  "ex_second = ex_game2\<lparr> scores := [\<lparr> playerId = ''p1'', name = ''A'', score = - 300 \<rparr>,
                                      \<lparr> playerId = ''p2'', name = ''B'', score = 140 \<rparr>] \<rparr>"
proof -
  have d: "deref (snd ex_restored) (fst ex_first) = ex_game2"
    by (simp add: ex_first_eq ex_restored_eq deref_def objectOf_def)
  have a: "ex_after = Inr (objectOf (ex_game2\<lparr> hands := [ex_hand_set],
                    scores := [\<lparr> playerId = ''p1'', name = ''A'', score = - 300 \<rparr>,
                               \<lparr> playerId = ''p2'', name = ''B'', score = 140 \<rparr>],
                    dealerIndex := Num 1 \<rparr>) 0,
         (snd ex_restored)\<lparr> cells := (cells (snd ex_restored))
            (0 := [\<lparr> playerId = ''p1'', name = ''A'', score = - 300 \<rparr>,
                   \<lparr> playerId = ''p2'', name = ''B'', score = 140 \<rparr>]) \<rparr>)"
    unfolding ex_after_def call_def d ex_addHand_set
    by (simp add: ex_first_eq objectOf_def)
  show "isl ex_after = False" unfolding a by simp
  show "ex_second = ex_game2\<lparr> scores := [\<lparr> playerId = ''p1'', name = ''A'', score = - 300 \<rparr>,
                                      \<lparr> playerId = ''p2'', name = ''B'', score = 140 \<rparr>] \<rparr>"
    unfolding ex_second_def a
    by (simp add: ex_restored_eq deref_def objectOf_def)
qed

text \<open>
  C4, as stated, fails for a round trip made in memory. \<open>toData\<close> hands out the scores
  array itself and \<open>fromData\<close> keeps it, so the restored session and the one it was made
  from share their score entries. After \<open>addHand\<close> of a set hand on a new 2-player
  session, the session restored from it before that call still has no hand, but its
  scores are -300 and 140; replaying its hands from a zero baseline gives 0 and 0.
\<close>

theorem shared_scores_counterexample:
  "isl ex_after = False
   \<and> hands ex_second = []
   \<and> scores ex_second = [\<lparr> playerId = ''p1'', name = ''A'', score = - 300 \<rparr>,
                          \<lparr> playerId = ''p2'', name = ''B'', score = 140 \<rparr>]
   \<and> recalculateScores ex_second
       = Inr (ex_second\<lparr> scores := [\<lparr> playerId = ''p1'', name = ''A'', score = 0 \<rparr>,
                                     \<lparr> playerId = ''p2'', name = ''B'', score = 0 \<rparr>] \<rparr>)
   \<and> recalculateScores ex_second \<noteq> Inr ex_second"
proof -
  have r: "recalculateScores ex_second
       = Inr (ex_second\<lparr> scores := [\<lparr> playerId = ''p1'', name = ''A'', score = 0 \<rparr>,
                                     \<lparr> playerId = ''p2'', name = ''B'', score = 0 \<rparr>] \<rparr>)"
    by (simp add: ex_second_eq recalculateScores_def ex_game2_fields)
  have "scores ex_second \<noteq> [\<lparr> playerId = ''p1'', name = ''A'', score = 0 \<rparr>,
                              \<lparr> playerId = ''p2'', name = ''B'', score = 0 \<rparr>]"
    by (simp add: ex_second_eq)
  then have "ex_second\<lparr> scores := [\<lparr> playerId = ''p1'', name = ''A'', score = 0 \<rparr>,
                                   \<lparr> playerId = ''p2'', name = ''B'', score = 0 \<rparr>] \<rparr> \<noteq> ex_second"
    by (metis (no_types) GameOf.select_convs(5) GameOf.surjective GameOf.update_convs(5))
  then show ?thesis using r by (simp add: ex_second_eq ex_game2_fields)
qed

text \<open>
  C4, amended. Take any sequence of the public operations (\<open>addHand\<close>,
  \<open>recalculateScores\<close>, \<open>endGame\<close>, \<open>advanceDealer\<close>, a \<open>fromData(toData())\<close> round trip
  after which the sequence goes on with the restored session) run on a newly
  constructed session, each returning normally. In the session reached, running the
  scoring engine again changes nothing: its cached scores are the replay of its hands
  from a zero baseline. When moreover the players have distinct ids and every added
  hand has its bidder among the players, every operation does return normally, the
  hands are the added hands in order, and the scores are, player by player, the fold
  \<open>replayedTotal\<close> of those hands. Nothing is said of a session that shares its scores
  array with another session on which operations are run.
\<close>

theorem scores_replay_invariant:
  "(\<forall>ob S. run_ops xs (newGameAt nowMs nowIso ps gt S0) = Inr (ob, S) \<longrightarrow>
      recalculateScores (deref S ob) = Inr (deref S ob))
   \<and> (distinct (map p_id ps) \<and> (\<forall>h \<in> set (addedHands xs). bidderKnown ps h) \<longrightarrow>
        (\<exists>ob S. run_ops xs (newGameAt nowMs nowIso ps gt S0) = Inr (ob, S)
              \<and> players ob = ps \<and> hands ob = addedHands xs
              \<and> cells S (scores ob)
                  = map (\<lambda>p. \<lparr> playerId = p_id p, name = p_name p,
                               score = replayedTotal (addedHands xs) (p_id p) \<rparr>) ps))"
proof (intro conjI allI impI)
  fix ob S
  assume run: "run_ops xs (newGameAt nowMs nowIso ps gt S0) = Inr (ob, S)"
  obtain ob0 S1 where n: "newGameAt nowMs nowIso ps gt S0 = (ob0, S1)"
    by (cases "newGameAt nowMs nowIso ps gt S0")
  from newGameAt_deref [OF n]
  have d0: "deref S1 ob0 = newGame nowMs nowIso ps gt" and al0: "scores ob0 < fresh S1"
    by simp_all
  have inv0: "recalculateScores (deref S1 ob0) = Inr (deref S1 ob0)"
    unfolding d0 by (rule recalculateScores_newGame)
  from run n have "run_ops xs (ob0, S1) = Inr (ob, S)" by simp
  with inv0 al0 show "recalculateScores (deref S ob) = Inr (deref S ob)"
    by (rule run_ops_keeps_replay)
next
  assume "distinct (map p_id ps) \<and> (\<forall>h \<in> set (addedHands xs). bidderKnown ps h)"
  then show "\<exists>ob S. run_ops xs (newGameAt nowMs nowIso ps gt S0) = Inr (ob, S)
              \<and> players ob = ps \<and> hands ob = addedHands xs
              \<and> cells S (scores ob)
                  = map (\<lambda>p. \<lparr> playerId = p_id p, name = p_name p,
                               score = replayedTotal (addedHands xs) (p_id p) \<rparr>) ps"
    by (intro run_ops_newGameAt) simp_all
qed

theorem scores_replay_invariant_witness:
  "\<exists>ob S. run_ops ex_ops (newGameAt ''1700000000000'' ''t0'' ex_players2 2 emptyStore)
            = Inr (ob, S)
       \<and> recalculateScores (deref S ob) = Inr (deref S ob)
       \<and> hands ob = [ex_hand_thrown, ex_hand_set]
       \<and> cells S (scores ob) = [\<lparr> playerId = ''p1'', name = ''A'', score = - 300 \<rparr>,
                                \<lparr> playerId = ''p2'', name = ''B'', score = 140 \<rparr>]"
proof -
  have ah: "addedHands ex_ops = [ex_hand_thrown, ex_hand_set]"
    by (simp add: ex_ops_def)
  have d: "distinct (map p_id ex_players2)"
    by (simp add: ex_players2_def)
  have known: "\<forall>h \<in> set (addedHands ex_ops). bidderKnown ex_players2 h"
    by (simp add: ah ex_bidderKnown)
  have tot: "replayedTotal [ex_hand_thrown, ex_hand_set] ''p1'' = - 300"
            "replayedTotal [ex_hand_thrown, ex_hand_set] ''p2'' = 140"
    by (simp_all add: replayedTotal_def ex_handDelta)
  note inv = scores_replay_invariant
    [of ex_ops "''1700000000000''" "''t0''" ex_players2 2 emptyStore]
  from inv d known obtain ob S where
    a: "run_ops ex_ops (newGameAt ''1700000000000'' ''t0'' ex_players2 2 emptyStore)
          = Inr (ob, S)"
    and hs: "hands ob = addedHands ex_ops"
    and sc: "cells S (scores ob)
               = map (\<lambda>p. \<lparr> playerId = p_id p, name = p_name p,
                            score = replayedTotal (addedHands ex_ops) (p_id p) \<rparr>)
                     ex_players2"
    by blast
  from inv a have "recalculateScores (deref S ob) = Inr (deref S ob)" by blast
  moreover have "cells S (scores ob) = [\<lparr> playerId = ''p1'', name = ''A'', score = - 300 \<rparr>,
                                       \<lparr> playerId = ''p2'', name = ''B'', score = 140 \<rparr>]"
    using sc by (simp add: ah tot ex_players2_def)
  ultimately have "run_ops ex_ops (newGameAt ''1700000000000'' ''t0'' ex_players2 2 emptyStore)
            = Inr (ob, S)
       \<and> recalculateScores (deref S ob) = Inr (deref S ob)
       \<and> hands ob = [ex_hand_thrown, ex_hand_set]
       \<and> cells S (scores ob) = [\<lparr> playerId = ''p1'', name = ''A'', score = - 300 \<rparr>,
                                \<lparr> playerId = ''p2'', name = ''B'', score = 140 \<rparr>]"
    using a hs ah by simp
  then show ?thesis by (intro exI)
qed

section \<open>checkForWinner\<close>

lemma reduce_picks_last_maximum:
  "\<exists>pre post.
     w # ws = pre @ foldl (\<lambda>prev current. if score prev > score current then prev else current)
                      w ws # post
     \<and> (\<forall>s \<in> set pre. score s
           \<le> score (foldl (\<lambda>prev current. if score prev > score current then prev else current)
                     w ws))
     \<and> (\<forall>s \<in> set post. score s
           < score (foldl (\<lambda>prev current. if score prev > score current then prev else current)
                     w ws))"
proof (induction ws rule: rev_induct)
  case Nil
  have "[w] = [] @ w # []" by simp
  then show ?case by force
next
  case (snoc x ws)
  let ?pick = "\<lambda>prev current. if score prev > score current then prev else current"
  let ?r = "foldl ?pick w ws"
  from snoc.IH obtain pre post where
    eq: "w # ws = pre @ ?r # post"
    and le: "\<forall>s \<in> set pre. score s \<le> score ?r"
    and lt: "\<forall>s \<in> set post. score s < score ?r"
    by blast
  show ?case
  proof (cases "score ?r > score x")
    case True
    then have r: "foldl ?pick w (ws @ [x]) = ?r" by simp
    have "w # (ws @ [x]) = pre @ ?r # (post @ [x])" using eq by simp
    moreover have "\<forall>s \<in> set (post @ [x]). score s < score ?r" using lt True by simp
    ultimately show ?thesis unfolding r using le by blast
  next
    case False
    then have r: "foldl ?pick w (ws @ [x]) = x" by simp
    have "\<forall>s \<in> set (pre @ ?r # post). score s \<le> score x"
      using le lt False by fastforce
    then have "\<forall>s \<in> set (w # ws). score s \<le> score x" using eq by simp
    moreover have "w # (ws @ [x]) = (w # ws) @ x # []" by simp
    ultimately show ?thesis unfolding r by (metis empty_iff empty_set)
  qed
qed

lemma filter_split:
  "filter P xs = pre @ r # post \<Longrightarrow>
   \<exists>pre' post'. xs = pre' @ r # post' \<and> filter P pre' = pre \<and> filter P post' = post \<and> P r"
proof (induction xs arbitrary: pre)
  case Nil
  then show ?case by simp
next
  case (Cons x xs)
  show ?case
  proof (cases "P x")
    case True
    show ?thesis
    proof (cases pre)
      case Nil
      with True Cons.prems have "x = r" "filter P xs = post" by simp_all
      then have "x # xs = [] @ r # xs \<and> filter P [] = pre \<and> filter P xs = post \<and> P r"
        using True Nil by simp
      then show ?thesis by blast
    next
      case (Cons p pre2)
      with True Cons.prems have px: "x = p" and f: "filter P xs = pre2 @ r # post" by simp_all
      from Cons.IH [OF f] obtain pre' post' where
        "xs = pre' @ r # post'" "filter P pre' = pre2" "filter P post' = post" "P r"
        by blast
      then have "x # xs = (x # pre') @ r # post' \<and> filter P (x # pre') = pre
                  \<and> filter P post' = post \<and> P r"
        using True px Cons by simp
      then show ?thesis by blast
    qed
  next
    case False
    with Cons.prems have f: "filter P xs = pre @ r # post" by simp
    from Cons.IH [OF f] obtain pre' post' where
      "xs = pre' @ r # post'" "filter P pre' = pre" "filter P post' = post" "P r"
      by blast
    then have "x # xs = (x # pre') @ r # post' \<and> filter P (x # pre') = pre
                \<and> filter P post' = post \<and> P r"
      using False by simp
    then show ?thesis by blast
  qed
qed

lemma checkForWinner_None:
  "checkForWinner g = None \<longleftrightarrow> (\<forall>s \<in> set (scores g). score s < targetScore g)"
proof -
  have "checkForWinner g = None \<longleftrightarrow> filter (\<lambda>s. score s \<ge> targetScore g) (scores g) = []"
    by (simp add: checkForWinner_def split: list.splits)
  then show ?thesis by (simp add: filter_empty_conv not_le)
qed

lemma checkForWinner_Some:
  assumes "checkForWinner g = Some w"
  shows "\<exists>pre post. scores g = pre @ w # post \<and> targetScore g \<le> score w
           \<and> (\<forall>s \<in> set pre. targetScore g \<le> score s \<longrightarrow> score s \<le> score w)
           \<and> (\<forall>s \<in> set post. targetScore g \<le> score s \<longrightarrow> score s < score w)"
proof -
  let ?P = "\<lambda>s. score s \<ge> targetScore g"
  let ?pick = "\<lambda>prev current. if score prev > score current then prev else current"
  from assms obtain v vs where
    f: "filter ?P (scores g) = v # vs" and w: "w = foldl ?pick v vs"
    by (auto simp: checkForWinner_def split: list.splits)
  from reduce_picks_last_maximum [of v vs] obtain pre post where
    eq: "v # vs = pre @ w # post"
    and le: "\<forall>s \<in> set pre. score s \<le> score w"
    and lt: "\<forall>s \<in> set post. score s < score w"
    unfolding w by blast
  from f eq have "filter ?P (scores g) = pre @ w # post" by simp
  from filter_split [OF this] obtain pre' post' where
    s: "scores g = pre' @ w # post'" and fp: "filter ?P pre' = pre"
    and fq: "filter ?P post' = post" and pw: "?P w"
    by blast
  have "\<forall>s \<in> set pre'. targetScore g \<le> score s \<longrightarrow> score s \<le> score w"
    using le fp by auto
  moreover have "\<forall>s \<in> set post'. targetScore g \<le> score s \<longrightarrow> score s < score w"
    using lt fq by auto
  ultimately show ?thesis using s pw by blast
qed

lemma ex_game_tie_fields:
  "scores ex_game_tie = [\<lparr> playerId = ''p1'', name = ''A'', score = 1000 \<rparr>,
                         \<lparr> playerId = ''p2'', name = ''B'', score = 1000 \<rparr>]"
  "targetScore ex_game_tie = 1000"
  by (simp_all add: ex_game_tie_def ex_game2_fields)

lemma ex_hand_tie_fields:
  "bidderId ex_hand_tie = Some ''p1''" "winningBid ex_hand_tie = Some 300"
  "playerMeld ex_hand_tie = [(''p1'', 850), (''p2'', 900)]"
  "playerScores ex_hand_tie = [(''p1'', 150), (''p2'', 100)]"
  "thrownIn ex_hand_tie = False"
  by (simp_all add: ex_hand_tie_def ex_hand_bid_def hand_defs)

lemma ex_addHand_tie: "addHand ex_hand_tie ex_game2 = Inr ex_game_tie"
proof -
  have nb: "\<not> isBidderSet ex_hand_tie"
    by (simp add: isBidderSet_def truthy_str_def truthy_num_def or0_def ex_hand_tie_fields)
  have "scoreHand ex_players2 ex_hand_tie (map (\<lambda>s. s\<lparr> score := 0 \<rparr>) (scores ex_game2))
          = Inr (scores ex_game_tie)"
    by (simp add: scoreHand_def nb ex_hand_tie_fields ex_players2_def ex_game2_fields
          ex_game_tie_fields or0_def)
  then have "recalculateScores (ex_game2\<lparr> hands := hands ex_game2 @ [ex_hand_tie] \<rparr>)
      = Inr (ex_game2\<lparr> hands := [ex_hand_tie], scores := scores ex_game_tie \<rparr>)"
    by (simp add: recalculateScores_def ex_game2_fields)
  then show ?thesis
    by (simp add: addHand_def advanceDealer_def js_rem_def ex_game2_fields ex_players2_def
          ex_game_tie_def)
qed

lemma ex_individualMode: "individualMode ex_game2" "individualMode ex_game_tie"
  by (simp_all add: individualMode_def ex_game_tie_def ex_game2_def newGame_def)

text \<open>
  C3, as stated, fails on ties. Adding one hand to a new 2-player game (individual
  mode, target 1000) gives both players 1000; \<open>checkForWinner\<close> then returns the entry
  of \<open>p2\<close>, the last of the tied entries, not the entry of \<open>p1\<close>, the first one.
\<close>

theorem checkForWinner_tie_counterexample:
  "addHand ex_hand_tie ex_game2 = Inr ex_game_tie
   \<and> individualMode ex_game_tie
   \<and> scores ex_game_tie = [\<lparr> playerId = ''p1'', name = ''A'', score = 1000 \<rparr>,
                            \<lparr> playerId = ''p2'', name = ''B'', score = 1000 \<rparr>]
   \<and> targetScore ex_game_tie = 1000
   \<and> checkForWinner ex_game_tie = Some \<lparr> playerId = ''p2'', name = ''B'', score = 1000 \<rparr>
   \<and> checkForWinner ex_game_tie \<noteq> Some \<lparr> playerId = ''p1'', name = ''A'', score = 1000 \<rparr>"
  by (simp add: ex_addHand_tie ex_game_tie_fields checkForWinner_def ex_individualMode)

text \<open>
  C3, amended. For every session in individual mode (2 or 3 players, or 4 players
  without team assignments), \<open>checkForWinner\<close> returns nothing exactly when no score
  reaches \<open>targetScore\<close>. Otherwise it returns an entry \<open>w\<close> of \<open>scores\<close> with
  \<open>score w \<ge> targetScore\<close> such that every qualifying entry before it scores at most
  \<open>score w\<close> and every qualifying entry after it scores strictly less: the highest
  qualifying score wins, and among entries tied at that maximum the last one in player
  order is returned.
\<close>

theorem checkForWinner_last_maximum:
  "individualMode g \<longrightarrow>
   (checkForWinner g = None \<longleftrightarrow> (\<forall>s \<in> set (scores g). score s < targetScore g))
   \<and> (\<forall>w. checkForWinner g = Some w \<longrightarrow>
        (\<exists>pre post. scores g = pre @ w # post \<and> targetScore g \<le> score w
           \<and> (\<forall>s \<in> set pre. targetScore g \<le> score s \<longrightarrow> score s \<le> score w)
           \<and> (\<forall>s \<in> set post. targetScore g \<le> score s \<longrightarrow> score s < score w)))"
  using checkForWinner_None [of g] checkForWinner_Some [of g] by blast

theorem checkForWinner_last_maximum_witness:
  "checkForWinner ex_game2 = None
   \<and> (\<exists>pre post. scores ex_game_tie
          = pre @ \<lparr> playerId = ''p2'', name = ''B'', score = 1000 \<rparr> # post
        \<and> Ball (set post) (\<lambda>s. score s < 1000))"
proof -
  have "\<forall>s \<in> set (scores ex_game2). score s < targetScore ex_game2"
    by (simp add: ex_game2_fields)
  with checkForWinner_last_maximum [of ex_game2] ex_individualMode(1)
  have a: "checkForWinner ex_game2 = None"
    by blast
  have w: "checkForWinner ex_game_tie = Some \<lparr> playerId = ''p2'', name = ''B'', score = 1000 \<rparr>"
    by (simp add: ex_game_tie_fields checkForWinner_def)
  with checkForWinner_last_maximum [of ex_game_tie] ex_individualMode(2) obtain pre post where
    "scores ex_game_tie = pre @ \<lparr> playerId = ''p2'', name = ''B'', score = 1000 \<rparr> # post"
    "\<forall>s \<in> set post. targetScore ex_game_tie \<le> score s
        \<longrightarrow> score s < score \<lparr> playerId = ''p2'', name = ''B'', score = 1000 \<rparr>"
    by blast
  then have "\<exists>pre post. scores ex_game_tie
          = pre @ \<lparr> playerId = ''p2'', name = ''B'', score = 1000 \<rparr> # post
        \<and> Ball (set post) (\<lambda>s. score s < 1000)"
    by (auto simp: ex_game_tie_fields not_le)
  with a show ?thesis by simp
qed

text \<open>
  C2 (team mode). The class has no team branch: \<open>checkForWinner\<close> never reads
  \<open>teamAssignments\<close> and compares single entries only. In the 4-player scenario with
  teams scoring 800 + 750 and 600 + 700 against the target 1500 no single entry reaches
  1500, and the result is nothing, where the test of the repository
  (\<open>should return team winner for 4-player games when team reaches target\<close>) and the
  claim expect team A with 1550.
\<close>

theorem checkForWinner_team_scenario:
  "targetScore ex_game_team = 1500
   \<and> map score (scores ex_game_team) = [800, 600, 750, 700]
   \<and> teamAssignments ex_game_team
       = Some \<lparr> teamA = [\<lparr> p_id = ''player1'', p_name = ''Alice'' \<rparr>,
                          \<lparr> p_id = ''player3'', p_name = ''Charlie'' \<rparr>],
                 teamB = [\<lparr> p_id = ''player2'', p_name = ''Bob'' \<rparr>,
                          \<lparr> p_id = ''player4'', p_name = ''Diana'' \<rparr>] \<rparr>
   \<and> checkForWinner ex_game_team = None
   \<and> checkForWinner (g\<lparr> teamAssignments := t \<rparr>) = checkForWinner g"
  by (simp add: ex_game_team_def newGame_def ex_players4_def checkForWinner_def)

end
